theory Spec2Isabelle
  imports Main "HOL-Library.Word"
begin

section \<open>Data model\<close>

text \<open>
  Raw addresses (\<open>T*\<close>, \<open>ControlBlockBase*\<close>) are natural numbers, \<open>0\<close> being
  \<open>nullptr\<close>. The reference counts are \<open>std::size_t\<close>, taken as 64-bit unsigned
  words: \<open>++\<close> and \<open>--\<close> wrap around, as unsigned arithmetic does in C++.
\<close>

type_synonym addr = nat
type_synonym size_t = "64 word"

text \<open>
  The three classes of control block: \<open>ControlBlockBase\<close> itself (whose
  \<open>OnZeroStrong\<close> is empty), \<open>ControlBlockPointer<T>\<close> with its member \<open>ptr_\<close>,
  and \<open>ControlBlockEmplace<T>\<close>, whose pointee lives in the block's own storage.
  The members \<open>strong_\<close>, \<open>weak_\<close>, \<open>block_\<close> and \<open>ptr_\<close> of the source are the
  fields \<open>strong\<close>, \<open>weak\<close>, \<open>block\<close> and \<open>ptr\<close> here (a record field cannot end
  in an underscore).
\<close>

datatype variant = Plain | Referencing addr | Embedding

record ControlBlock =
  strong :: size_t
  weak :: size_t
  variant :: variant

text \<open>
  What a run does to the outside world, in program order: every mutation of a count, every
  call of \<open>std::default_delete\<close> on a raw address, every in-place destructor call on the
  storage of an embedding block, and every \<open>delete block_\<close>. The program never reads
  this list. The pointee type \<open>T\<close> is opaque: what its destructor does beyond ending
  the pointee is not part of the model.
\<close>

datatype event =
    StrongAdded addr
  | WeakAdded addr
  | StrongRemoved addr
  | WeakRemoved addr
  | DefaultDelete addr
  | DestroyInPlace addr
  | BlockDeleted addr

section \<open>Control block\<close>

text \<open>Member initialisers \<open>strong_ = 1\<close>, \<open>weak_ = 0\<close>.\<close>

definition new_ControlBlock :: "variant \<Rightarrow> ControlBlock" where
  "new_ControlBlock v = \<lparr>strong = 1, weak = 0, variant = v\<rparr>"

definition AddStrong :: "ControlBlock \<Rightarrow> ControlBlock" where
  "AddStrong c = c\<lparr>strong := strong c + 1\<rparr>"

definition AddWeak :: "ControlBlock \<Rightarrow> ControlBlock" where
  "AddWeak c = c\<lparr>weak := weak c + 1\<rparr>"

text \<open>
  The virtual hook. The first argument is the address of the block itself (\<open>this\<close>).
  \<open>ControlBlockPointer\<close> calls \<open>std::default_delete<T>()(ptr_)\<close> and nulls \<open>ptr_\<close>;
  \<open>ControlBlockEmplace\<close> runs the destructor of the object in its storage.
\<close>

fun OnZeroStrong :: "addr \<Rightarrow> ControlBlock \<Rightarrow> ControlBlock \<times> event list" where
  "OnZeroStrong this c =
     (case variant c of
        Plain \<Rightarrow> (c, [])
      | Referencing p \<Rightarrow> (c\<lparr>variant := Referencing 0\<rparr>, [DefaultDelete p])
      | Embedding \<Rightarrow> (c, [DestroyInPlace this]))"

definition RemoveStrong :: "addr \<Rightarrow> ControlBlock \<Rightarrow> bool \<times> ControlBlock \<times> event list" where
  "RemoveStrong this c =
     (let c1 = c\<lparr>strong := strong c - 1\<rparr>;
          (c2, evs) = (if strong c1 = 0 then OnZeroStrong this c1 else (c1, []))
      in (strong c2 + weak c2 = 0, c2, evs))"

definition RemoveWeak :: "ControlBlock \<Rightarrow> bool \<times> ControlBlock" where
  "RemoveWeak c =
     (let c1 = c\<lparr>weak := weak c - 1\<rparr>
      in (strong c1 + weak c1 = 0, c1))"

definition GetStrong :: "ControlBlock \<Rightarrow> size_t" where
  "GetStrong c = strong c"

definition GetWeak :: "ControlBlock \<Rightarrow> size_t" where
  "GetWeak c = weak c"

section \<open>Program state\<close>

text \<open>
  The two outcomes other than a normal return: the exception \<open>BadWeakPtr\<close>, and an
  access through a dangling block pointer or to an object that does not exist, which is
  undefined behaviour in C++.
\<close>

datatype error = BadWeakPtr | InvalidAccess

text \<open>
  \<open>SharedPtr<T>\<close> and \<open>WeakPtr<T>\<close> have the members \<open>block_\<close> and \<open>ptr_\<close>, in
  this order.
\<close>

record SharedPtr =
  block :: addr
  ptr :: addr

record WeakPtr =
  wblock :: addr
  wptr :: addr

text \<open>
  The store. Control blocks live on the heap: \<open>blocks\<close> maps the address of an allocated
  block to its contents, and \<open>new\<close> hands out the addresses \<open>1, 2, 3, \<dots>\<close> in turn
  (\<open>high\<close> is the last one handed out), so a new block never has the address of an
  older one. Pointer objects are identified by their position in \<open>shared_objs\<close> and
  \<open>weak_objs\<close>: a constructor appends the new object, a destructor leaves \<open>None\<close> in
  its place.
\<close>

record state =
  blocks :: "addr \<Rightarrow> ControlBlock option"
  high :: addr
  shared_objs :: "SharedPtr option list"
  weak_objs :: "WeakPtr option list"
  trace :: "event list"

definition init :: state where
  "init = \<lparr>blocks = (\<lambda>_. None), high = 0, shared_objs = [], weak_objs = [], trace = []\<rparr>"

definition seq :: "error + 'a \<Rightarrow> ('a \<Rightarrow> error + 'b) \<Rightarrow> error + 'b" where
  "seq m f = (case m of Inl e \<Rightarrow> Inl e | Inr x \<Rightarrow> f x)"

definition block_at :: "state \<Rightarrow> addr \<Rightarrow> ControlBlock option" where
  "block_at s b = (if b = 0 \<or> high s < b then None else blocks s b)"

definition put_block :: "addr \<Rightarrow> ControlBlock \<Rightarrow> state \<Rightarrow> state" where
  "put_block b c s = s\<lparr>blocks := (blocks s)(b \<mapsto> c)\<rparr>"

definition emit :: "event list \<Rightarrow> state \<Rightarrow> state" where
  "emit evs s = s\<lparr>trace := trace s @ evs\<rparr>"

text \<open>\<open>new ControlBlockPointer<T>(ptr)\<close>, \<open>new ControlBlockEmplace<T>(args...)\<close>.\<close>

definition new_block :: "variant \<Rightarrow> state \<Rightarrow> addr \<times> state" where
  "new_block v s =
     (let b = Suc (high s)
      in (b, s\<lparr>blocks := (blocks s)(b \<mapsto> new_ControlBlock v), high := b\<rparr>))"

text \<open>\<open>delete block_\<close>.\<close>

definition delete_block :: "addr \<Rightarrow> state \<Rightarrow> state" where
  "delete_block b s = emit [BlockDeleted b] (s\<lparr>blocks := (blocks s)(b := None)\<rparr>)"

text \<open>The calls \<open>block_->AddStrong()\<close> and so on, through a block pointer \<open>b\<close>.\<close>

definition call_AddStrong :: "addr \<Rightarrow> state \<Rightarrow> error + state" where
  "call_AddStrong b s =
     (case block_at s b of
        None \<Rightarrow> Inl InvalidAccess
      | Some c \<Rightarrow> Inr (emit [StrongAdded b] (put_block b (AddStrong c) s)))"

definition call_AddWeak :: "addr \<Rightarrow> state \<Rightarrow> error + state" where
  "call_AddWeak b s =
     (case block_at s b of
        None \<Rightarrow> Inl InvalidAccess
      | Some c \<Rightarrow> Inr (emit [WeakAdded b] (put_block b (AddWeak c) s)))"

definition call_RemoveStrong :: "addr \<Rightarrow> state \<Rightarrow> error + bool \<times> state" where
  "call_RemoveStrong b s =
     (case block_at s b of
        None \<Rightarrow> Inl InvalidAccess
      | Some c \<Rightarrow>
          (case RemoveStrong b c of
             (r, c', evs) \<Rightarrow> Inr (r, emit (StrongRemoved b # evs) (put_block b c' s))))"

definition call_RemoveWeak :: "addr \<Rightarrow> state \<Rightarrow> error + bool \<times> state" where
  "call_RemoveWeak b s =
     (case block_at s b of
        None \<Rightarrow> Inl InvalidAccess
      | Some c \<Rightarrow>
          (case RemoveWeak c of
             (r, c') \<Rightarrow> Inr (r, emit [WeakRemoved b] (put_block b c' s))))"

definition call_GetStrong :: "addr \<Rightarrow> state \<Rightarrow> error + size_t" where
  "call_GetStrong b s =
     (case block_at s b of None \<Rightarrow> Inl InvalidAccess | Some c \<Rightarrow> Inr (GetStrong c))"

section \<open>SharedPtr\<close>

definition sp_at :: "state \<Rightarrow> nat \<Rightarrow> SharedPtr option" where
  "sp_at s i = (if i < length (shared_objs s) then shared_objs s ! i else None)"

definition sp_put :: "nat \<Rightarrow> SharedPtr \<Rightarrow> state \<Rightarrow> state" where
  "sp_put i v s = s\<lparr>shared_objs := (shared_objs s)[i := Some v]\<rparr>"

definition sp_new :: "SharedPtr \<Rightarrow> state \<Rightarrow> state" where
  "sp_new v s = s\<lparr>shared_objs := shared_objs s @ [Some v]\<rparr>"

definition sp_end :: "nat \<Rightarrow> state \<Rightarrow> state" where
  "sp_end i s = s\<lparr>shared_objs := (shared_objs s)[i := None]\<rparr>"

text \<open>
  Constructors return the state in which the new object stands at position
  \<open>length (shared_objs s)\<close> of the state \<open>s\<close> they started from. The constructors and
  \<open>Reset\<close> overloads that are templates over a second type \<open>U\<close> have the bodies of the
  ones for \<open>T\<close> and are not modelled apart.
\<close>

definition SharedPtr_default :: "state \<Rightarrow> error + state" where
  "SharedPtr_default s = Inr (sp_new \<lparr>block = 0, ptr = 0\<rparr> s)"

definition SharedPtr_nullptr :: "state \<Rightarrow> error + state" where
  "SharedPtr_nullptr s = Inr (sp_new \<lparr>block = 0, ptr = 0\<rparr> s)"

text \<open>\<open>explicit SharedPtr(T* ptr)\<close>\<close>

definition SharedPtr_raw :: "addr \<Rightarrow> state \<Rightarrow> error + state" where
  "SharedPtr_raw p s =
     (case new_block (Referencing p) s of
        (b, s1) \<Rightarrow> Inr (sp_new \<lparr>block = b, ptr = p\<rparr> s1))"

text \<open>\<open>explicit SharedPtr(T* ptr, ControlBlockBase* block)\<close>\<close>

definition SharedPtr_adopt :: "addr \<Rightarrow> addr \<Rightarrow> state \<Rightarrow> error + state" where
  "SharedPtr_adopt p b s = Inr (sp_new \<lparr>block = b, ptr = p\<rparr> s)"

text \<open>
  \<open>MakeShared<T>(args...)\<close>: one \<open>new ControlBlockEmplace<T>\<close>, then the adopting
  constructor on \<open>block->Get()\<close> and the block. \<open>Get()\<close> of an embedding block is the
  address of its member \<open>storage_\<close>; where that lies is a matter of memory layout, so
  it is the parameter \<open>storage_of\<close>, from the address of the block.
\<close>

definition MakeShared :: "(addr \<Rightarrow> addr) \<Rightarrow> state \<Rightarrow> error + state" where
  "MakeShared storage_of s =
     (case new_block Embedding s of
        (b, s1) \<Rightarrow> SharedPtr_adopt (storage_of b) b s1)"

text \<open>\<open>void Reset()\<close>\<close>

definition SharedPtr_Reset :: "nat \<Rightarrow> state \<Rightarrow> error + state" where
  "SharedPtr_Reset this s =
     (case sp_at s this of
        None \<Rightarrow> Inl InvalidAccess
      | Some t \<Rightarrow>
          if block t = 0 then Inr s
          else seq (call_RemoveStrong (block t) s)
                 (\<lambda>(r, s1). Inr (sp_put this \<lparr>block = 0, ptr = 0\<rparr>
                                   (if r then delete_block (block t) s1 else s1))))"

text \<open>\<open>void Reset(T* ptr, ControlBlockBase* block)\<close>\<close>

definition SharedPtr_Reset_adopt :: "nat \<Rightarrow> addr \<Rightarrow> addr \<Rightarrow> state \<Rightarrow> error + state" where
  "SharedPtr_Reset_adopt this p b s =
     (case sp_at s this of
        None \<Rightarrow> Inl InvalidAccess
      | Some t \<Rightarrow>
          if block t = b then Inr s
          else seq (SharedPtr_Reset this s)
                 (\<lambda>s1. Inr (sp_put this \<lparr>block = b, ptr = p\<rparr> s1)))"

text \<open>\<open>void Reset(T* ptr)\<close>\<close>

definition SharedPtr_Reset_raw :: "nat \<Rightarrow> addr \<Rightarrow> state \<Rightarrow> error + state" where
  "SharedPtr_Reset_raw this p s =
     (case sp_at s this of
        None \<Rightarrow> Inl InvalidAccess
      | Some t \<Rightarrow>
          if p = ptr t then Inr s
          else (case new_block (Referencing p) s of
                  (b, s1) \<Rightarrow> SharedPtr_Reset_adopt this p b s1))"

text \<open>\<open>SharedPtr(const SharedPtr& other)\<close>\<close>

definition SharedPtr_copy :: "nat \<Rightarrow> state \<Rightarrow> error + state" where
  "SharedPtr_copy other s =
     (case sp_at s other of
        None \<Rightarrow> Inl InvalidAccess
      | Some ot \<Rightarrow>
          (let s1 = sp_new \<lparr>block = block ot, ptr = ptr ot\<rparr> s
           in if block ot \<noteq> 0 then call_AddStrong (block ot) s1 else Inr s1))"


text \<open>The aliasing constructor \<open>SharedPtr(const SharedPtr<Y>& other, T* ptr)\<close>\<close>

definition SharedPtr_alias :: "nat \<Rightarrow> addr \<Rightarrow> state \<Rightarrow> error + state" where
  "SharedPtr_alias other p s =
     (case sp_at s other of
        None \<Rightarrow> Inl InvalidAccess
      | Some ot \<Rightarrow>
          (let s1 = sp_new \<lparr>block = block ot, ptr = p\<rparr> s
           in if block ot \<noteq> 0 then call_AddStrong (block ot) s1 else Inr s1))"

text \<open>\<open>SharedPtr& operator=(const SharedPtr& other)\<close>\<close>

definition SharedPtr_copy_assign :: "nat \<Rightarrow> nat \<Rightarrow> state \<Rightarrow> error + state" where
  "SharedPtr_copy_assign this other s =
     (if this = other then Inr s
      else case sp_at s other of
        None \<Rightarrow> Inl InvalidAccess
      | Some ot \<Rightarrow>
          seq (SharedPtr_Reset_adopt this (ptr ot) (block ot) s)
            (\<lambda>s1. case sp_at s1 this of
                     None \<Rightarrow> Inl InvalidAccess
                   | Some t \<Rightarrow> if block t \<noteq> 0 then call_AddStrong (block t) s1 else Inr s1))"

text \<open>\<open>SharedPtr& operator=(SharedPtr&& other)\<close>\<close>

definition SharedPtr_move_assign :: "nat \<Rightarrow> nat \<Rightarrow> state \<Rightarrow> error + state" where
  "SharedPtr_move_assign this other s =
     (if this = other then Inr s
      else case sp_at s other of
        None \<Rightarrow> Inl InvalidAccess
      | Some ot \<Rightarrow>
          seq (seq (SharedPtr_Reset_adopt this (ptr ot) (block ot) s)
                 (\<lambda>s1. case sp_at s1 this of
                          None \<Rightarrow> Inl InvalidAccess
                        | Some t \<Rightarrow>
                            if block t \<noteq> 0 then call_AddStrong (block t) s1 else Inr s1))
            (SharedPtr_Reset other))"

text \<open>\<open>~SharedPtr()\<close>: \<open>Reset()\<close>, then the object is gone.\<close>

definition SharedPtr_destroy :: "nat \<Rightarrow> state \<Rightarrow> error + state" where
  "SharedPtr_destroy this s = seq (SharedPtr_Reset this s) (\<lambda>s1. Inr (sp_end this s1))"

text \<open>
  \<open>void Swap(SharedPtr& other)\<close>: the local \<open>tmp\<close> is copy-constructed from \<open>*this\<close>
  and destroyed at the end of the body.
\<close>

definition SharedPtr_Swap :: "nat \<Rightarrow> nat \<Rightarrow> state \<Rightarrow> error + state" where
  "SharedPtr_Swap this other s =
     (let tmp = length (shared_objs s)
      in seq (SharedPtr_copy this s)
           (\<lambda>s1. seq (SharedPtr_copy_assign this other s1)
              (\<lambda>s2. seq (SharedPtr_copy_assign other tmp s2)
                 (SharedPtr_destroy tmp))))"

definition SharedPtr_Get :: "nat \<Rightarrow> state \<Rightarrow> error + addr" where
  "SharedPtr_Get this s =
     (case sp_at s this of None \<Rightarrow> Inl InvalidAccess | Some t \<Rightarrow> Inr (ptr t))"

definition SharedPtr_GetControlBlock :: "nat \<Rightarrow> state \<Rightarrow> error + addr" where
  "SharedPtr_GetControlBlock this s =
     (case sp_at s this of None \<Rightarrow> Inl InvalidAccess | Some t \<Rightarrow> Inr (block t))"

definition SharedPtr_UseCount :: "nat \<Rightarrow> state \<Rightarrow> error + size_t" where
  "SharedPtr_UseCount this s =
     (case sp_at s this of
        None \<Rightarrow> Inl InvalidAccess
      | Some t \<Rightarrow> if block t \<noteq> 0 then call_GetStrong (block t) s else Inr 0)"

text \<open>\<open>explicit operator bool() const\<close>\<close>

definition SharedPtr_bool :: "nat \<Rightarrow> state \<Rightarrow> error + bool" where
  "SharedPtr_bool this s =
     (case sp_at s this of None \<Rightarrow> Inl InvalidAccess | Some t \<Rightarrow> Inr (ptr t \<noteq> 0))"

section \<open>WeakPtr\<close>

definition wp_at :: "state \<Rightarrow> nat \<Rightarrow> WeakPtr option" where
  "wp_at s i = (if i < length (weak_objs s) then weak_objs s ! i else None)"

definition wp_put :: "nat \<Rightarrow> WeakPtr \<Rightarrow> state \<Rightarrow> state" where
  "wp_put i v s = s\<lparr>weak_objs := (weak_objs s)[i := Some v]\<rparr>"

definition wp_new :: "WeakPtr \<Rightarrow> state \<Rightarrow> state" where
  "wp_new v s = s\<lparr>weak_objs := weak_objs s @ [Some v]\<rparr>"

definition wp_end :: "nat \<Rightarrow> state \<Rightarrow> state" where
  "wp_end i s = s\<lparr>weak_objs := (weak_objs s)[i := None]\<rparr>"

definition WeakPtr_default :: "state \<Rightarrow> error + state" where
  "WeakPtr_default s = Inr (wp_new \<lparr>wblock = 0, wptr = 0\<rparr> s)"

text \<open>\<open>void Reset()\<close>\<close>

definition WeakPtr_Reset :: "nat \<Rightarrow> state \<Rightarrow> error + state" where
  "WeakPtr_Reset this s =
     (case wp_at s this of
        None \<Rightarrow> Inl InvalidAccess
      | Some t \<Rightarrow>
          if wblock t = 0 then Inr s
          else seq (call_RemoveWeak (wblock t) s)
                 (\<lambda>(r, s1). Inr (wp_put this \<lparr>wblock = 0, wptr = 0\<rparr>
                                   (if r then delete_block (wblock t) s1 else s1))))"

text \<open>\<open>void Reset(T* ptr, ControlBlockBase* block)\<close>\<close>

definition WeakPtr_Reset_adopt :: "nat \<Rightarrow> addr \<Rightarrow> addr \<Rightarrow> state \<Rightarrow> error + state" where
  "WeakPtr_Reset_adopt this p b s =
     (case wp_at s this of
        None \<Rightarrow> Inl InvalidAccess
      | Some t \<Rightarrow>
          if wblock t = b then Inr s
          else seq (WeakPtr_Reset this s)
                 (\<lambda>s1. let s2 = wp_put this \<lparr>wblock = b, wptr = p\<rparr> s1
                        in if b \<noteq> 0 then call_AddWeak b s2 else Inr s2))"

text \<open>\<open>WeakPtr(const WeakPtr& other)\<close>\<close>

definition WeakPtr_copy :: "nat \<Rightarrow> state \<Rightarrow> error + state" where
  "WeakPtr_copy other s =
     (case wp_at s other of
        None \<Rightarrow> Inl InvalidAccess
      | Some ot \<Rightarrow>
          (let s1 = wp_new \<lparr>wblock = wblock ot, wptr = wptr ot\<rparr> s
           in if wblock ot \<noteq> 0 then call_AddWeak (wblock ot) s1 else Inr s1))"


text \<open>The demoting constructor \<open>WeakPtr(const SharedPtr<T>& other)\<close>\<close>

definition WeakPtr_from_shared :: "nat \<Rightarrow> state \<Rightarrow> error + state" where
  "WeakPtr_from_shared other s =
     (case sp_at s other of
        None \<Rightarrow> Inl InvalidAccess
      | Some ot \<Rightarrow>
          (let s1 = wp_new \<lparr>wblock = block ot, wptr = ptr ot\<rparr> s
           in if block ot \<noteq> 0 then call_AddWeak (block ot) s1 else Inr s1))"

text \<open>\<open>WeakPtr& operator=(const WeakPtr& other)\<close>\<close>

definition WeakPtr_copy_assign :: "nat \<Rightarrow> nat \<Rightarrow> state \<Rightarrow> error + state" where
  "WeakPtr_copy_assign this other s =
     (if this = other then Inr s
      else case wp_at s other of
        None \<Rightarrow> Inl InvalidAccess
      | Some ot \<Rightarrow> WeakPtr_Reset_adopt this (wptr ot) (wblock ot) s)"


text \<open>\<open>~WeakPtr()\<close>\<close>

definition WeakPtr_destroy :: "nat \<Rightarrow> state \<Rightarrow> error + state" where
  "WeakPtr_destroy this s = seq (WeakPtr_Reset this s) (\<lambda>s1. Inr (wp_end this s1))"

definition WeakPtr_Swap :: "nat \<Rightarrow> nat \<Rightarrow> state \<Rightarrow> error + state" where
  "WeakPtr_Swap this other s =
     (let tmp = length (weak_objs s)
      in seq (WeakPtr_copy this s)
           (\<lambda>s1. seq (WeakPtr_copy_assign this other s1)
              (\<lambda>s2. seq (WeakPtr_copy_assign other tmp s2)
                 (WeakPtr_destroy tmp))))"

definition WeakPtr_UseCount :: "nat \<Rightarrow> state \<Rightarrow> error + size_t" where
  "WeakPtr_UseCount this s =
     (case wp_at s this of
        None \<Rightarrow> Inl InvalidAccess
      | Some t \<Rightarrow> if wblock t \<noteq> 0 then call_GetStrong (wblock t) s else Inr 0)"

definition WeakPtr_Get :: "nat \<Rightarrow> state \<Rightarrow> error + addr" where
  "WeakPtr_Get this s =
     (case wp_at s this of None \<Rightarrow> Inl InvalidAccess | Some t \<Rightarrow> Inr (wptr t))"

definition WeakPtr_GetControlBlock :: "nat \<Rightarrow> state \<Rightarrow> error + addr" where
  "WeakPtr_GetControlBlock this s =
     (case wp_at s this of None \<Rightarrow> Inl InvalidAccess | Some t \<Rightarrow> Inr (wblock t))"

definition WeakPtr_Expired :: "nat \<Rightarrow> state \<Rightarrow> error + bool" where
  "WeakPtr_Expired this s = seq (WeakPtr_UseCount this s) (\<lambda>n. Inr (n = 0))"

text \<open>
  The promoting constructor \<open>explicit SharedPtr(const WeakPtr<T>& other)\<close>. The
  exception leaves the constructor before any member is set: no object comes to exist.
\<close>

definition SharedPtr_from_weak :: "nat \<Rightarrow> state \<Rightarrow> error + state" where
  "SharedPtr_from_weak other s =
     seq (WeakPtr_Expired other s)
       (\<lambda>expired.
          if expired then Inl BadWeakPtr
          else case wp_at s other of
            None \<Rightarrow> Inl InvalidAccess
          | Some ot \<Rightarrow>
              (let s1 = sp_new \<lparr>block = wblock ot, ptr = wptr ot\<rparr> s
               in if wblock ot \<noteq> 0 then call_AddStrong (wblock ot) s1 else Inr s1))"

text \<open>
  \<open>SharedPtr<T> Lock() const\<close>: the conditional expression constructs the returned
  object in place, by the default constructor or by the promoting one.
\<close>

definition WeakPtr_Lock :: "nat \<Rightarrow> state \<Rightarrow> error + state" where
  "WeakPtr_Lock this s =
     seq (WeakPtr_Expired this s)
       (\<lambda>expired. if expired then SharedPtr_default s else SharedPtr_from_weak this s)"

section \<open>UniquePtr\<close>

text \<open>
  A \<open>UniquePtr<T, D>\<close> is its \<open>CompressedPair<T*, D>\<close>: \<open>first\<close> is the address,
  \<open>second\<close> the cleanup policy. \<open>D\<close> is any callable type, so what a call
  \<open>ptr_.GetSecond()(tmp_ptr)\<close> does is a parameter \<open>run\<close> of the model: from the policy
  value, the address it is called on, and the address the pointer holds while the policy
  runs (what a policy that calls \<open>Get()\<close> on the pointer reads), it gives the new state
  of the rest of the world. \<open>invoked\<close> lists the addresses the policy was called on.
\<close>

record ('d, 'w) UniquePtr =
  first :: addr
  second :: 'd
  world :: 'w
  invoked :: "addr list"

definition invoke ::
  "('d \<Rightarrow> addr \<Rightarrow> addr \<Rightarrow> 'w \<Rightarrow> 'w) \<Rightarrow> addr \<Rightarrow> ('d, 'w) UniquePtr \<Rightarrow> ('d, 'w) UniquePtr" where
  "invoke run a u = u\<lparr>world := run (second u) a (first u) (world u), invoked := invoked u @ [a]\<rparr>"

text \<open>\<open>T* Release() noexcept\<close>\<close>

definition UniquePtr_Release :: "('d, 'w) UniquePtr \<Rightarrow> addr \<times> ('d, 'w) UniquePtr" where
  "UniquePtr_Release u = (let tmp_ptr = first u in (tmp_ptr, u\<lparr>first := 0\<rparr>))"

text \<open>\<open>void Reset(T* ptr = nullptr) noexcept\<close> of the primary template\<close>

definition UniquePtr_Reset ::
  "('d \<Rightarrow> addr \<Rightarrow> addr \<Rightarrow> 'w \<Rightarrow> 'w) \<Rightarrow> addr \<Rightarrow> ('d, 'w) UniquePtr \<Rightarrow> ('d, 'w) UniquePtr" where
  "UniquePtr_Reset run p u =
     (let tmp_ptr = first u;
          u1 = u\<lparr>first := p\<rparr>
      in if tmp_ptr \<noteq> 0 then invoke run tmp_ptr u1 else u1)"

text \<open>\<open>void Reset(T* ptr = nullptr) noexcept\<close> of the specialisation \<open>UniquePtr<T[], D>\<close>\<close>

definition UniquePtr_array_Reset ::
  "('d \<Rightarrow> addr \<Rightarrow> addr \<Rightarrow> 'w \<Rightarrow> 'w) \<Rightarrow> addr \<Rightarrow> ('d, 'w) UniquePtr \<Rightarrow> ('d, 'w) UniquePtr" where
  "UniquePtr_array_Reset run p u =
     (let tmp_ptr = first u;
          u1 = u\<lparr>first := p\<rparr>
      in if tmp_ptr \<noteq> 0 then invoke run tmp_ptr u1 else u1)"

definition UniquePtr_Get :: "('d, 'w) UniquePtr \<Rightarrow> addr" where
  "UniquePtr_Get u = first u"

section \<open>Observations used in the statements\<close>




text \<open>
  \<open>shared_ok i s\<close>, \<open>weak_ok w s\<close>: the object exists and its \<open>block_\<close> is null or
  the address of an allocated control block (it does not dangle).
\<close>

definition weak_ok :: "nat \<Rightarrow> state \<Rightarrow> bool" where
  "weak_ok w s \<longleftrightarrow>
     (case wp_at s w of
        None \<Rightarrow> False
      | Some t \<Rightarrow> wblock t = 0 \<or> block_at s (wblock t) \<noteq> None)"

definition shared_ok :: "nat \<Rightarrow> state \<Rightarrow> bool" where
  "shared_ok i s \<longleftrightarrow>
     (case sp_at s i of
        None \<Rightarrow> False
      | Some t \<Rightarrow> block t = 0 \<or> block_at s (block t) \<noteq> None)"

text \<open>\<open>observe f\<close> reads \<open>f\<close> off the state an operation returned.\<close>

definition observe :: "(state \<Rightarrow> 'a) \<Rightarrow> state \<Rightarrow> error + 'a" where
  "observe f s = Inr (f s)"

text \<open>
  \<open>owners b s\<close>: the number of live \<open>SharedPtr\<close> objects of \<open>s\<close> whose \<open>block_\<close>
  is \<open>b\<close>.
\<close>

definition holds :: "addr \<Rightarrow> SharedPtr option \<Rightarrow> bool" where
  "holds b x = (case x of None \<Rightarrow> False | Some t \<Rightarrow> block t = b)"

definition owners :: "addr \<Rightarrow> state \<Rightarrow> nat" where
  "owners b s = length (filter (holds b) (shared_objs s))"

text \<open>
  \<open>observers b s\<close>: the number of live \<open>WeakPtr\<close> objects whose \<open>block_\<close> is
  \<open>b\<close>. \<open>counted b s\<close>: block \<open>b\<close> is allocated and its two counts are the numbers
  of live owners and observers (which together stay below \<open>2 ^ 64\<close>, so that no count
  has wrapped). \<open>events_since s s'\<close>: what a run from \<open>s\<close> to \<open>s'\<close> added to the
  trace. \<open>all_expired b s\<close>: \<open>Expired()\<close> is true on every \<open>WeakPtr\<close> with block
  \<open>b\<close>.
\<close>

definition wholds :: "addr \<Rightarrow> WeakPtr option \<Rightarrow> bool" where
  "wholds b x = (case x of None \<Rightarrow> False | Some t \<Rightarrow> wblock t = b)"

definition observers :: "addr \<Rightarrow> state \<Rightarrow> nat" where
  "observers b s = length (filter (wholds b) (weak_objs s))"

definition counted :: "addr \<Rightarrow> state \<Rightarrow> bool" where
  "counted b s \<longleftrightarrow>
     (case block_at s b of
        None \<Rightarrow> False
      | Some c \<Rightarrow> strong c = of_nat (owners b s) \<and> weak c = of_nat (observers b s))
     \<and> owners b s + observers b s < 2 ^ 64"

definition events_since :: "state \<Rightarrow> state \<Rightarrow> event list" where
  "events_since s s' = drop (length (trace s)) (trace s')"

definition all_expired :: "addr \<Rightarrow> state \<Rightarrow> bool" where
  "all_expired b s \<longleftrightarrow>
     (\<forall>w. WeakPtr_GetControlBlock w s = Inr b \<longrightarrow> WeakPtr_Expired w s = Inr True)"

text \<open>
  Runs of copy constructions and of destructions. \<open>copy_each srcs\<close> copy-constructs
  one new \<open>SharedPtr\<close> from each object of \<open>srcs\<close> in turn; \<open>destroy_each ds\<close>
  destroys the objects of \<open>ds\<close> in turn. \<open>copy_sources_ok k srcs\<close>: the \<open>j\<close>-th
  copy is taken from the object at \<open>k\<close> or from one of the \<open>j\<close> copies made before
  it (which stand at \<open>k + 1\<close>, \<dots>, \<open>k + j\<close>). \<open>deletions evs\<close>: the pointee
  destructions among the events \<open>evs\<close>.
\<close>

fun copy_each :: "nat list \<Rightarrow> state \<Rightarrow> error + state" where
  "copy_each [] s = Inr s"
| "copy_each (src # srcs) s = seq (SharedPtr_copy src s) (copy_each srcs)"

fun destroy_each :: "nat list \<Rightarrow> state \<Rightarrow> error + state" where
  "destroy_each [] s = Inr s"
| "destroy_each (d # ds) s = seq (SharedPtr_destroy d s) (destroy_each ds)"

definition copy_sources_ok :: "nat \<Rightarrow> nat list \<Rightarrow> bool" where
  "copy_sources_ok k srcs \<longleftrightarrow> (\<forall>j < length srcs. k \<le> srcs ! j \<and> srcs ! j \<le> k + j)"

definition deletions :: "event list \<Rightarrow> event list" where
  "deletions evs =
     filter (\<lambda>e. case e of DefaultDelete _ \<Rightarrow> True | DestroyInPlace _ \<Rightarrow> True | _ \<Rightarrow> False) evs"

text \<open>
  The states such a run goes through, written out: \<open>family s v objs m evs\<close> is \<open>s\<close>
  with one more control block, of variant \<open>v\<close>, strong count \<open>m\<close> and weak count
  \<open>0\<close>, with the objects \<open>objs\<close> after those of \<open>s\<close>, and with the events
  \<open>evs\<close> after the trace of \<open>s\<close>; \<open>family_gone\<close> is the same after that block was
  deleted.
\<close>

definition family :: "state \<Rightarrow> variant \<Rightarrow> SharedPtr option list \<Rightarrow> nat \<Rightarrow> event list \<Rightarrow> state" where
  "family s v objs m evs =
     s\<lparr>blocks := (blocks s)(Suc (high s) \<mapsto> \<lparr>strong = of_nat m, weak = 0, variant = v\<rparr>),
       high := Suc (high s),
       shared_objs := shared_objs s @ objs,
       trace := trace s @ evs\<rparr>"

definition family_gone :: "state \<Rightarrow> SharedPtr option list \<Rightarrow> event list \<Rightarrow> state" where
  "family_gone s objs evs =
     s\<lparr>blocks := (blocks s)(Suc (high s) := None),
       high := Suc (high s),
       shared_objs := shared_objs s @ objs,
       trace := trace s @ evs\<rparr>"

text \<open>
  \<open>destroyed_once_at_last origin del s srcs ds\<close>: from \<open>s\<close>, the constructor
  \<open>origin\<close>, the copies \<open>srcs\<close> and the destructions \<open>ds\<close> all return normally;
  after the constructions, and after the first \<open>m\<close> destructions for every \<open>m\<close> up
  to the number of copies, no pointee has been destroyed and the new control block (at
  \<open>Suc (high s)\<close>) is allocated; the destructions together add to the trace one
  \<open>StrongRemoved\<close> for each owner, then the pointee destruction \<open>del\<close>, then the
  deletion of the block, so that \<open>del\<close> is the only pointee destruction of the run.
\<close>

definition destroyed_once_at_last ::
  "(state \<Rightarrow> error + state) \<Rightarrow> event \<Rightarrow> state \<Rightarrow> nat list \<Rightarrow> nat list \<Rightarrow> bool" where
  "destroyed_once_at_last origin del s srcs ds \<longleftrightarrow>
     (\<exists>s1. seq (origin s) (copy_each srcs) = Inr s1
        \<and> deletions (events_since s s1) = []
        \<and> (\<forall>m \<le> length srcs. \<exists>s2.
              destroy_each (take m ds) s1 = Inr s2
              \<and> events_since s1 s2 = replicate m (StrongRemoved (Suc (high s)))
              \<and> deletions (events_since s s2) = []
              \<and> block_at s2 (Suc (high s)) \<noteq> None)
        \<and> (\<exists>s3.
              destroy_each ds s1 = Inr s3
              \<and> events_since s1 s3
                  = replicate (length srcs + 1) (StrongRemoved (Suc (high s)))
                    @ [del, BlockDeleted (Suc (high s))]
              \<and> deletions (events_since s s3) = [del]
              \<and> block_at s3 (Suc (high s)) = None))"

text \<open>\<open>run_ops fs\<close> performs the operations \<open>fs\<close> in turn, up to the first error.\<close>

fun run_ops :: "(state \<Rightarrow> error + state) list \<Rightarrow> state \<Rightarrow> error + state" where
  "run_ops [] s = Inr s"
| "run_ops (f # fs) s = seq (f s) (run_ops fs)"

text \<open>
  Three runs from the empty state. \<open>a\<close> is object \<open>0\<close>, \<open>b\<close> object \<open>1\<close>, the
  observer \<open>w\<close> is \<open>WeakPtr\<close> object \<open>0\<close>:
  \<^verbatim>\<open>SharedPtr<T> a(p); SharedPtr<T> b(a); WeakPtr<T> w(a); [b = a; | b = std::move(a);] ~a; ~b\<close>
\<close>

definition expiry_run :: "(state \<Rightarrow> error + state) list" where
  "expiry_run =
     [SharedPtr_raw 7, SharedPtr_copy 0, WeakPtr_from_shared 0,
      SharedPtr_destroy 0, SharedPtr_destroy 1]"

definition leaking_run :: "(state \<Rightarrow> error + state) list" where
  "leaking_run =
     [SharedPtr_raw 7, SharedPtr_copy 0, WeakPtr_from_shared 0, SharedPtr_copy_assign 1 0,
      SharedPtr_destroy 0, SharedPtr_destroy 1]"

definition leaking_move_run :: "(state \<Rightarrow> error + state) list" where
  "leaking_move_run =
     [SharedPtr_raw 7, SharedPtr_copy 0, WeakPtr_from_shared 0, SharedPtr_move_assign 1 0,
      SharedPtr_destroy 0, SharedPtr_destroy 1]"

text \<open>The example states of the closed theorems below.\<close>

definition null_state :: state where
  "null_state =
     \<lparr>blocks = (\<lambda>_. None), high = 0,
      shared_objs = [Some \<lparr>block = 0, ptr = 0\<rparr>, Some \<lparr>block = 0, ptr = 0\<rparr>],
      weak_objs = [Some \<lparr>wblock = 0, wptr = 0\<rparr>, Some \<lparr>wblock = 0, wptr = 0\<rparr>],
      trace = []\<rparr>"



definition live_state :: state where
  "live_state =
     \<lparr>blocks = (\<lambda>_. None)(1 \<mapsto> \<lparr>strong = 1, weak = 1, variant = Referencing 7\<rparr>), high = 1,
      shared_objs = [Some \<lparr>block = 1, ptr = 7\<rparr>],
      weak_objs = [Some \<lparr>wblock = 1, wptr = 7\<rparr>],
      trace = [WeakAdded 1]\<rparr>"

definition expired_state :: state where
  "expired_state =
     \<lparr>blocks = (\<lambda>_. None)(1 \<mapsto> \<lparr>strong = 0, weak = 1, variant = Referencing 0\<rparr>), high = 1,
      shared_objs = [None],
      weak_objs = [Some \<lparr>wblock = 1, wptr = 7\<rparr>],
      trace = [WeakAdded 1, StrongRemoved 1, DefaultDelete 7]\<rparr>"

definition two_blocks_state :: state where
  "two_blocks_state =
     \<lparr>blocks = ((\<lambda>_. None)(1 \<mapsto> \<lparr>strong = 1, weak = 0, variant = Referencing 7\<rparr>))
                 (2 \<mapsto> \<lparr>strong = 1, weak = 0, variant = Referencing 8\<rparr>),
      high = 2,
      shared_objs = [Some \<lparr>block = 1, ptr = 7\<rparr>, Some \<lparr>block = 2, ptr = 8\<rparr>],
      weak_objs = [],
      trace = []\<rparr>"

definition shared_pair_state :: state where
  "shared_pair_state =
     \<lparr>blocks = (\<lambda>_. None)(1 \<mapsto> \<lparr>strong = 2, weak = 0, variant = Referencing 7\<rparr>),
      high = 1,
      shared_objs = [Some \<lparr>block = 1, ptr = 7\<rparr>, Some \<lparr>block = 1, ptr = 7\<rparr>],
      weak_objs = [],
      trace = [StrongAdded 1]\<rparr>"

section \<open>The control-block protocol\<close>

lemmas store_defs = sp_at_def sp_put_def sp_new_def sp_end_def wp_at_def wp_put_def wp_new_def
  wp_end_def block_at_def put_block_def emit_def new_block_def delete_block_def

lemmas call_defs = call_AddStrong_def call_AddWeak_def call_RemoveStrong_def call_RemoveWeak_def
  call_GetStrong_def

lemmas run_defs = seq_def observe_def init_def SharedPtr_raw_def SharedPtr_copy_def
  SharedPtr_Reset_def SharedPtr_Reset_adopt_def SharedPtr_Reset_raw_def
  SharedPtr_copy_assign_def SharedPtr_move_assign_def SharedPtr_destroy_def
  SharedPtr_UseCount_def SharedPtr_Get_def SharedPtr_GetControlBlock_def
  store_defs call_defs new_ControlBlock_def AddStrong_def AddWeak_def RemoveStrong_def
  RemoveWeak_def GetStrong_def Let_def

lemmas eval_defs = run_defs numeral_2_eq_2

lemma OnZeroStrong_counts:
  "strong (fst (OnZeroStrong this c)) = strong c \<and> weak (fst (OnZeroStrong this c)) = weak c"
  by (cases "variant c") simp_all

lemma word_sum_zero_iff:
  fixes a b :: size_t
  assumes "unat a + unat b < 2 ^ 64"
  shows "a + b = 0 \<longleftrightarrow> a = 0 \<and> b = 0"
proof
  assume "a + b = 0"
  then have "unat (a + b) = 0" by simp
  moreover have "unat (a + b) = unat a + unat b"
    using assms by (simp add: unat_word_ariths)
  ultimately show "a = 0 \<and> b = 0" by (simp add: unat_eq_0)
next
  assume "a = 0 \<and> b = 0"
  then show "a + b = 0" by simp
qed

text \<open>
  Claim C5. \<open>RemoveStrong\<close> decrements the strong count by one, runs the variant's hook
  \<open>OnZeroStrong\<close> exactly when the decremented strong count is zero, and returns whether
  \<open>strong_ + weak_\<close> is now zero; \<open>RemoveWeak\<close> decrements the weak count by one and
  returns whether \<open>strong_ + weak_\<close> is now zero. The sum is the program's \<open>size_t\<close>
  sum; as long as the two counts together stay below \<open>2 ^ 64\<close> it is zero exactly when
  both counts are.
\<close>

theorem C5_remove_protocol:
  "(case RemoveStrong this c of (r, c', evs) \<Rightarrow>
      strong c' = strong c - 1 \<and> weak c' = weak c
      \<and> (c', evs) = (if strong c - 1 = 0
                      then OnZeroStrong this (c\<lparr>strong := strong c - 1\<rparr>)
                      else (c\<lparr>strong := strong c - 1\<rparr>, []))
      \<and> (r \<longleftrightarrow> strong c' + weak c' = 0)
      \<and> (unat (strong c') + unat (weak c') < 2 ^ 64 \<longrightarrow>
           (r \<longleftrightarrow> strong c' = 0 \<and> weak c' = 0)))
   \<and> (case RemoveWeak c of (r, c') \<Rightarrow>
      weak c' = weak c - 1 \<and> strong c' = strong c \<and> variant c' = variant c
      \<and> (r \<longleftrightarrow> strong c' + weak c' = 0)
      \<and> (unat (strong c') + unat (weak c') < 2 ^ 64 \<longrightarrow>
           (r \<longleftrightarrow> strong c' = 0 \<and> weak c' = 0)))"
proof -
  have strong_part: "case RemoveStrong this c of (r, c', evs) \<Rightarrow>
      strong c' = strong c - 1 \<and> weak c' = weak c
      \<and> (c', evs) = (if strong c - 1 = 0
                      then OnZeroStrong this (c\<lparr>strong := strong c - 1\<rparr>)
                      else (c\<lparr>strong := strong c - 1\<rparr>, []))
      \<and> (r \<longleftrightarrow> strong c' + weak c' = 0)
      \<and> (unat (strong c') + unat (weak c') < 2 ^ 64 \<longrightarrow>
           (r \<longleftrightarrow> strong c' = 0 \<and> weak c' = 0))"
    by (cases "variant c")
       (auto simp: RemoveStrong_def Let_def word_sum_zero_iff split: prod.splits)
  have weak_part: "case RemoveWeak c of (r, c') \<Rightarrow>
      weak c' = weak c - 1 \<and> strong c' = strong c \<and> variant c' = variant c
      \<and> (r \<longleftrightarrow> strong c' + weak c' = 0)
      \<and> (unat (strong c') + unat (weak c') < 2 ^ 64 \<longrightarrow>
           (r \<longleftrightarrow> strong c' = 0 \<and> weak c' = 0))"
    by (auto simp: RemoveWeak_def Let_def word_sum_zero_iff)
  from strong_part weak_part show ?thesis by blast
qed


theorem C5_remove_protocol_witness:
  "RemoveStrong 1 \<lparr>strong = 1, weak = 0, variant = Referencing 7\<rparr>
     = (True, \<lparr>strong = 0, weak = 0, variant = Referencing 0\<rparr>, [DefaultDelete 7])
   \<and> RemoveStrong 1 \<lparr>strong = 2, weak = 0, variant = Referencing 7\<rparr>
     = (False, \<lparr>strong = 1, weak = 0, variant = Referencing 7\<rparr>, [])
   \<and> RemoveWeak \<lparr>strong = 0, weak = 1, variant = Referencing 0\<rparr>
     = (True, \<lparr>strong = 0, weak = 0, variant = Referencing 0\<rparr>)
   \<and> unat (0 :: size_t) + unat (0 :: size_t) < 2 ^ 64"
  using C5_remove_protocol [where this = 1 and c = "\<lparr>strong = 1, weak = 0, variant = Referencing 7\<rparr>"]
    C5_remove_protocol [where this = 1 and c = "\<lparr>strong = 2, weak = 0, variant = Referencing 7\<rparr>"]
    C5_remove_protocol [where this = 1 and c = "\<lparr>strong = 0, weak = 1, variant = Referencing 0\<rparr>"]
  by (simp add: RemoveStrong_def RemoveWeak_def Let_def)

section \<open>Construction\<close>

text \<open>
  Claim C9. The constructor \<open>explicit SharedPtr(T* ptr)\<close> called with a null address
  allocates a referencing control block all the same: the new object's \<open>UseCount()\<close> is
  \<open>1\<close> and its \<open>operator bool()\<close> is false. The default constructor and the one from
  \<open>nullptr\<close> allocate nothing: the new object has no control block and its
  \<open>UseCount()\<close> is \<open>0\<close>.
\<close>

theorem C9_null_raw_has_block:
  "(\<exists>s'. SharedPtr_raw 0 s = Inr s'
        \<and> SharedPtr_UseCount (length (shared_objs s)) s' = Inr 1
        \<and> SharedPtr_bool (length (shared_objs s)) s' = Inr False
        \<and> SharedPtr_GetControlBlock (length (shared_objs s)) s' = Inr (Suc (high s))
        \<and> block_at s (Suc (high s)) = None
        \<and> block_at s' (Suc (high s)) = Some \<lparr>strong = 1, weak = 0, variant = Referencing 0\<rparr>)
   \<and> (\<exists>s'. SharedPtr_default s = Inr s'
        \<and> SharedPtr_UseCount (length (shared_objs s)) s' = Inr 0
        \<and> SharedPtr_GetControlBlock (length (shared_objs s)) s' = Inr 0
        \<and> blocks s' = blocks s \<and> high s' = high s)
   \<and> (\<exists>s'. SharedPtr_nullptr s = Inr s'
        \<and> SharedPtr_UseCount (length (shared_objs s)) s' = Inr 0
        \<and> SharedPtr_GetControlBlock (length (shared_objs s)) s' = Inr 0
        \<and> blocks s' = blocks s \<and> high s' = high s)"
  by (simp add: SharedPtr_raw_def SharedPtr_default_def SharedPtr_nullptr_def
      SharedPtr_UseCount_def SharedPtr_bool_def SharedPtr_GetControlBlock_def
      store_defs call_defs new_ControlBlock_def GetStrong_def Let_def)

section \<open>UniquePtr::Reset\<close>

text \<open>
  Claim C8. \<open>Reset(p)\<close> of a \<open>UniquePtr\<close> (primary template and array specialisation
  alike) calls the cleanup policy exactly once, on the address held before, when that
  address is not null, and does not call it when it is null; the policy runs when the
  pointer already holds \<open>p\<close>, so a policy that reads the pointer's address reads \<open>p\<close>.
\<close>

theorem C8_reset_cleanup_after_store:
  "first (UniquePtr_Reset run p u) = p
   \<and> second (UniquePtr_Reset run p u) = second u
   \<and> invoked (UniquePtr_Reset run p u) = invoked u @ (if first u = 0 then [] else [first u])
   \<and> world (UniquePtr_Reset run p u)
       = (if first u = 0 then world u else run (second u) (first u) p (world u))
   \<and> UniquePtr_array_Reset run p u = UniquePtr_Reset run p u"
  by (simp add: UniquePtr_Reset_def UniquePtr_array_Reset_def invoke_def Let_def)

section \<open>Null pointers\<close>







section \<open>Promotion of a WeakPtr\<close>

lemma weak_ok_UseCount:
  assumes "weak_ok w s"
  shows "\<exists>n. WeakPtr_UseCount w s = Inr n"
  using assms
  by (auto simp: weak_ok_def WeakPtr_UseCount_def call_GetStrong_def split: option.splits)

lemma promote_expired:
  assumes "WeakPtr_UseCount w s = Inr 0"
  shows "SharedPtr_from_weak w s = Inl BadWeakPtr"
    and "WeakPtr_Lock w s = SharedPtr_default s"
  using assms
  by (simp_all add: SharedPtr_from_weak_def WeakPtr_Lock_def WeakPtr_Expired_def seq_def)

lemma promote_live:
  assumes "WeakPtr_UseCount w s = Inr n" and "n \<noteq> 0"
  shows "\<exists>t c. wp_at s w = Some t \<and> wblock t \<noteq> 0 \<and> block_at s (wblock t) = Some c
          \<and> strong c = n
          \<and> SharedPtr_from_weak w s
              = Inr (emit [StrongAdded (wblock t)]
                      (put_block (wblock t) (c\<lparr>strong := n + 1\<rparr>)
                        (sp_new \<lparr>block = wblock t, ptr = wptr t\<rparr> s)))
          \<and> WeakPtr_Lock w s = SharedPtr_from_weak w s"
  using assms
  by (auto simp: SharedPtr_from_weak_def WeakPtr_Lock_def WeakPtr_Expired_def seq_def
      WeakPtr_UseCount_def call_GetStrong_def call_AddStrong_def GetStrong_def AddStrong_def
      block_at_def sp_new_def
      split: option.splits if_splits)

text \<open>
  Claim C3. For a \<open>WeakPtr\<close> whose block pointer does not dangle, the promoting
  constructor \<open>SharedPtr(const WeakPtr&)\<close> ends in \<open>BadWeakPtr\<close> exactly when the
  \<open>WeakPtr\<close> is expired (\<open>UseCount() == 0\<close>); \<open>Lock()\<close> on an expired \<open>WeakPtr\<close>
  returns a default-constructed (null) \<open>SharedPtr\<close> and raises nothing; \<open>Lock()\<close> on
  one that is not expired returns what the promoting constructor builds: a \<open>SharedPtr\<close>
  with the block and address of the \<open>WeakPtr\<close>, after one \<open>AddStrong\<close> on that block
  and no other change to any count.
\<close>

theorem C3_promotion:
  assumes "weak_ok w s"
  shows "\<exists>n. WeakPtr_UseCount w s = Inr n
           \<and> WeakPtr_Expired w s = Inr (n = 0)
           \<and> (SharedPtr_from_weak w s = Inl BadWeakPtr \<longleftrightarrow> n = 0)
           \<and> (n = 0 \<longrightarrow> WeakPtr_Lock w s = SharedPtr_default s)
           \<and> (n \<noteq> 0 \<longrightarrow>
                (\<exists>s' b. WeakPtr_Lock w s = Inr s' \<and> SharedPtr_from_weak w s = Inr s'
                   \<and> WeakPtr_GetControlBlock w s = Inr b
                   \<and> SharedPtr_GetControlBlock (length (shared_objs s)) s' = Inr b
                   \<and> SharedPtr_Get (length (shared_objs s)) s' = WeakPtr_Get w s
                   \<and> SharedPtr_UseCount (length (shared_objs s)) s' = Inr (n + 1)
                   \<and> trace s' = trace s @ [StrongAdded b]
                   \<and> (\<forall>b'. b' \<noteq> b \<longrightarrow> block_at s' b' = block_at s b')
                   \<and> map_option weak (block_at s' b) = map_option weak (block_at s b)
                   \<and> weak_objs s' = weak_objs s))"
proof -
  from weak_ok_UseCount [OF assms] obtain n where n: "WeakPtr_UseCount w s = Inr n" ..
  have exp: "WeakPtr_Expired w s = Inr (n = 0)"
    using n by (simp add: WeakPtr_Expired_def seq_def)
  show ?thesis
  proof (cases "n = 0")
    case True
    with n promote_expired [of w s] exp show ?thesis by auto
  next
    case False
    from promote_live [OF n False] obtain t c where
      t: "wp_at s w = Some t" and b: "wblock t \<noteq> 0"
      and c: "block_at s (wblock t) = Some c" and sc: "strong c = n"
      and pr: "SharedPtr_from_weak w s
              = Inr (emit [StrongAdded (wblock t)]
                      (put_block (wblock t) (c\<lparr>strong := n + 1\<rparr>)
                        (sp_new \<lparr>block = wblock t, ptr = wptr t\<rparr> s)))"
      and lk: "WeakPtr_Lock w s = SharedPtr_from_weak w s"
      by blast
    define s' where "s' = emit [StrongAdded (wblock t)]
                      (put_block (wblock t) (c\<lparr>strong := n + 1\<rparr>)
                        (sp_new \<lparr>block = wblock t, ptr = wptr t\<rparr> s))"
    have 1: "SharedPtr_GetControlBlock (length (shared_objs s)) s' = Inr (wblock t)"
      "SharedPtr_Get (length (shared_objs s)) s' = WeakPtr_Get w s"
      using t by (simp_all add: s'_def SharedPtr_GetControlBlock_def SharedPtr_Get_def
          WeakPtr_Get_def store_defs)
    have 2: "SharedPtr_UseCount (length (shared_objs s)) s' = Inr (n + 1)"
      using b c by (auto simp: s'_def SharedPtr_UseCount_def call_GetStrong_def GetStrong_def
          store_defs split: if_splits)
    have 3: "trace s' = trace s @ [StrongAdded (wblock t)]" "weak_objs s' = weak_objs s"
      by (simp_all add: s'_def store_defs)
    have 4: "\<forall>b'. b' \<noteq> wblock t \<longrightarrow> block_at s' b' = block_at s b'"
      by (simp add: s'_def store_defs)
    have 5: "map_option weak (block_at s' (wblock t)) = map_option weak (block_at s (wblock t))"
      using c by (auto simp: s'_def store_defs split: if_splits)
    have 6: "WeakPtr_GetControlBlock w s = Inr (wblock t)"
      using t by (simp add: WeakPtr_GetControlBlock_def)
    from False n exp pr lk 1 2 3 4 5 6 show ?thesis
      unfolding s'_def [symmetric] by auto
  qed
qed

theorem C3_promotion_witness:
  "weak_ok 0 live_state \<and> weak_ok 0 expired_state
   \<and> WeakPtr_Expired 0 live_state = Inr False
   \<and> WeakPtr_Expired 0 expired_state = Inr True
   \<and> SharedPtr_from_weak 0 expired_state = Inl BadWeakPtr
   \<and> WeakPtr_Lock 0 expired_state = Inr (sp_new \<lparr>block = 0, ptr = 0\<rparr> expired_state)
   \<and> seq (WeakPtr_Lock 0 live_state) (SharedPtr_UseCount 1) = Inr 2
   \<and> seq (SharedPtr_from_weak 0 live_state) (SharedPtr_UseCount 1) = Inr 2"
proof -
  have h1: "weak_ok 0 live_state"
    by (simp add: weak_ok_def live_state_def wp_at_def block_at_def)
  have h2: "weak_ok 0 expired_state"
    by (simp add: weak_ok_def expired_state_def wp_at_def block_at_def)
  have n1: "WeakPtr_UseCount 0 live_state = Inr 1"
    by (simp add: WeakPtr_UseCount_def live_state_def wp_at_def block_at_def call_GetStrong_def
        GetStrong_def)
  have n2: "WeakPtr_UseCount 0 expired_state = Inr 0"
    by (simp add: WeakPtr_UseCount_def expired_state_def wp_at_def block_at_def
        call_GetStrong_def GetStrong_def)
  have len: "length (shared_objs live_state) = 1"
    by (simp add: live_state_def)
  from C3_promotion [OF h1] C3_promotion [OF h2] h1 h2 n1 n2 len show ?thesis
    by (auto simp: seq_def SharedPtr_default_def)
qed

section \<open>The store, and what \<open>Reset()\<close> leaves alone\<close>

lemma sp_at_SomeD:
  "sp_at s i = Some t \<Longrightarrow> i < length (shared_objs s) \<and> shared_objs s ! i = Some t"
  by (simp add: sp_at_def split: if_splits)

lemma sp_at_sp_put:
  "sp_at (sp_put i v s) j = (if j = i \<and> i < length (shared_objs s) then Some v else sp_at s j)"
  by (simp add: sp_at_def sp_put_def)

lemma sp_at_sp_new:
  "sp_at (sp_new v s) j = (if j = length (shared_objs s) then Some v else sp_at s j)"
  by (simp add: sp_at_def sp_new_def nth_append)

lemma sp_at_sp_end:
  "sp_at (sp_end i s) j = (if j = i then None else sp_at s j)"
  by (simp add: sp_at_def sp_end_def)

lemma block_at_sp [simp]:
  "block_at (sp_put i v s) b = block_at s b"
  "block_at (sp_new v s) b = block_at s b"
  "block_at (sp_end i s) b = block_at s b"
  by (simp_all add: block_at_def sp_put_def sp_new_def sp_end_def)

lemma shared_ok_block:
  assumes "shared_ok i s" and "sp_at s i = Some t" and "block t \<noteq> 0"
  shows "block t \<le> high s \<and> (\<exists>c. blocks s (block t) = Some c)"
  using assms by (auto simp: shared_ok_def block_at_def split: if_splits)

lemma Reset_total:
  assumes "shared_ok i s"
  shows "\<exists>s1. SharedPtr_Reset i s = Inr s1"
  using assms
  by (auto simp: shared_ok_def SharedPtr_Reset_def seq_def call_RemoveStrong_def
      split: option.splits prod.splits)

lemma Reset_after_new_block:
  assumes ok: "shared_ok i s" and r: "SharedPtr_Reset i s = Inr s1"
  shows "SharedPtr_Reset i (snd (new_block v s))
         = Inr (s1\<lparr>blocks := (blocks s1)(Suc (high s) \<mapsto> new_ControlBlock v),
                  high := Suc (high s)\<rparr>)"
proof -
  from ok obtain t where t: "sp_at s i = Some t"
    by (auto simp: shared_ok_def split: option.splits)
  show ?thesis
  proof (cases "block t = 0")
    case True
    with t r sp_at_SomeD [OF t] show ?thesis
      by (auto simp: SharedPtr_Reset_def new_block_def sp_at_def Let_def)
  next
    case False
    from shared_ok_block [OF ok t False] obtain c where
      le: "block t \<le> high s" and c: "blocks s (block t) = Some c" by blast
    from le have ne: "block t \<noteq> Suc (high s)" by simp
    from t r False le c ne sp_at_SomeD [OF t] show ?thesis
      by (auto simp: SharedPtr_Reset_def new_block_def Let_def seq_def call_RemoveStrong_def
          store_defs fun_upd_twist split: prod.splits if_splits)
  qed
qed

lemma Reset_frame:
  assumes r: "SharedPtr_Reset i s = Inr s1" and t: "sp_at s i = Some t"
  shows "length (shared_objs s1) = length (shared_objs s)"
    and "j \<noteq> i \<Longrightarrow> sp_at s1 j = sp_at s j"
    and "sp_at s1 i = Some (if block t = 0 then t else \<lparr>block = 0, ptr = 0\<rparr>)"
    and "weak_objs s1 = weak_objs s"
    and "high s1 = high s"
    and "b \<noteq> block t \<Longrightarrow> block_at s1 b = block_at s b"
    and "block t = 0 \<Longrightarrow> s1 = s"
    and "\<exists>evs. trace s1 = trace s @ (if block t = 0 then [] else StrongRemoved (block t) # evs)"
  using r t sp_at_SomeD [OF t]
  by (auto simp: SharedPtr_Reset_def seq_def call_RemoveStrong_def store_defs
      split: if_splits option.splits prod.splits)

lemma two_blocks_state_reached:
  "seq (SharedPtr_raw 7 init) (SharedPtr_raw 8) = Inr two_blocks_state"
  by (simp add: eval_defs two_blocks_state_def)

lemma shared_pair_state_reached:
  "seq (SharedPtr_raw 7 init) (SharedPtr_copy 0) = Inr shared_pair_state"
  by (simp add: eval_defs shared_pair_state_def)

lemma live_state_reached:
  "seq (SharedPtr_raw 7 init) (WeakPtr_from_shared 0) = Inr live_state"
  by (simp add: seq_def SharedPtr_raw_def WeakPtr_from_shared_def init_def live_state_def
      store_defs call_defs new_ControlBlock_def AddWeak_def Let_def)

lemma expired_state_reached:
  "SharedPtr_destroy 0 live_state = Inr expired_state"
  by (simp add: seq_def SharedPtr_destroy_def SharedPtr_Reset_def live_state_def
      expired_state_def store_defs call_defs RemoveStrong_def Let_def)

section \<open>Reset to a raw address\<close>

text \<open>
  Claim C6 says that \<open>Reset(new_address)\<close> installs a fresh control block for every
  argument, also when \<open>new_address\<close> is the address the pointer already stores. The
  guard \<open>if (ptr == ptr_) return;\<close> makes that call do nothing: resetting the owner of
  address \<open>7\<close> to \<open>7\<close> keeps the old block \<open>1\<close> and releases nothing, and
  resetting a null pointer to null leaves it without any control block
  (\<open>UseCount() == 0\<close>).
\<close>

theorem C6_reset_raw_same_address:
  "SharedPtr_Get 0 live_state = Inr 7
   \<and> SharedPtr_GetControlBlock 0 live_state = Inr 1
   \<and> block_at live_state 1 = Some \<lparr>strong = 1, weak = 1, variant = Referencing 7\<rparr>
   \<and> SharedPtr_Reset_raw 0 7 live_state = Inr live_state
   \<and> SharedPtr_Get 0 null_state = Inr 0
   \<and> SharedPtr_Reset_raw 0 0 null_state = Inr null_state
   \<and> SharedPtr_GetControlBlock 0 null_state = Inr 0
   \<and> SharedPtr_UseCount 0 null_state = Inr 0"
  by (simp add: eval_defs live_state_def null_state_def)

text \<open>
  Claim C6, amended. For a \<open>SharedPtr\<close> whose block pointer does not dangle and every
  raw address \<open>p\<close> other than the stored one, \<open>Reset(p)\<close> leaves the state that
  \<open>Reset()\<close> leaves, with one more control block in it, freshly allocated, referencing
  \<open>p\<close>, with strong count \<open>1\<close> and weak count \<open>0\<close>, and with the pointer holding
  \<open>p\<close> and that block. When \<open>p\<close> is the stored address the call changes nothing.
\<close>

theorem C6_reset_raw_amended:
  assumes "shared_ok this s"
  shows "\<exists>t s1. sp_at s this = Some t \<and> SharedPtr_Reset this s = Inr s1
           \<and> block_at s (Suc (high s)) = None
           \<and> SharedPtr_Reset_raw this p s
              = (if p = ptr t then Inr s
                 else Inr (sp_put this \<lparr>block = Suc (high s), ptr = p\<rparr>
                        (s1\<lparr>blocks := (blocks s1)(Suc (high s) \<mapsto>
                                         \<lparr>strong = 1, weak = 0, variant = Referencing p\<rparr>),
                            high := Suc (high s)\<rparr>)))
           \<and> (p \<noteq> ptr t \<longrightarrow>
                seq (SharedPtr_Reset_raw this p s) (SharedPtr_UseCount this) = Inr 1
                \<and> seq (SharedPtr_Reset_raw this p s) (SharedPtr_Get this) = Inr p
                \<and> seq (SharedPtr_Reset_raw this p s) (SharedPtr_GetControlBlock this)
                   = Inr (Suc (high s)))"
proof -
  from assms obtain t where t: "sp_at s this = Some t"
    by (auto simp: shared_ok_def split: option.splits)
  from Reset_total [OF assms] obtain s1 where s1: "SharedPtr_Reset this s = Inr s1" ..
  have fresh: "block_at s (Suc (high s)) = None"
    by (simp add: block_at_def)
  have len: "length (shared_objs s1) = length (shared_objs s)"
    using s1 t
    by (auto simp: SharedPtr_Reset_def seq_def call_RemoveStrong_def store_defs
        split: if_splits option.splits prod.splits)
  have lt: "this < length (shared_objs s)"
    using sp_at_SomeD [OF t] by simp
  have ne: "block t \<noteq> Suc (high s)"
    using shared_ok_block [OF assms t] by (cases "block t = 0") auto
  have t': "sp_at (snd (new_block (Referencing p) s)) this = Some t"
    using sp_at_SomeD [OF t] by (simp add: new_block_def sp_at_def Let_def)
  have eq: "SharedPtr_Reset_raw this p s
              = (if p = ptr t then Inr s
                 else Inr (sp_put this \<lparr>block = Suc (high s), ptr = p\<rparr>
                        (s1\<lparr>blocks := (blocks s1)(Suc (high s) \<mapsto>
                                         \<lparr>strong = 1, weak = 0, variant = Referencing p\<rparr>),
                            high := Suc (high s)\<rparr>)))"
    using t t' ne Reset_after_new_block [OF assms s1, of "Referencing p"]
    by (auto simp: SharedPtr_Reset_raw_def SharedPtr_Reset_adopt_def seq_def
        new_ControlBlock_def split: prod.splits)
       (auto simp: new_block_def Let_def)
  have obs: "p \<noteq> ptr t \<longrightarrow>
                seq (SharedPtr_Reset_raw this p s) (SharedPtr_UseCount this) = Inr 1
                \<and> seq (SharedPtr_Reset_raw this p s) (SharedPtr_Get this) = Inr p
                \<and> seq (SharedPtr_Reset_raw this p s) (SharedPtr_GetControlBlock this)
                   = Inr (Suc (high s))"
    using lt len
    by (simp add: eq seq_def SharedPtr_UseCount_def SharedPtr_Get_def
        SharedPtr_GetControlBlock_def store_defs call_GetStrong_def GetStrong_def)
  from t s1 fresh eq obs show ?thesis by blast
qed

theorem C6_reset_raw_amended_witness:
  "shared_ok 0 live_state
   \<and> SharedPtr_Reset_raw 0 9 live_state
      = Inr \<lparr>blocks = ((\<lambda>_. None)(1 \<mapsto> \<lparr>strong = 0, weak = 1, variant = Referencing 0\<rparr>))
                        (2 \<mapsto> \<lparr>strong = 1, weak = 0, variant = Referencing 9\<rparr>),
             high = 2,
             shared_objs = [Some \<lparr>block = 2, ptr = 9\<rparr>],
             weak_objs = [Some \<lparr>wblock = 1, wptr = 7\<rparr>],
             trace = [WeakAdded 1, StrongRemoved 1, DefaultDelete 7]\<rparr>
   \<and> seq (SharedPtr_Reset_raw 0 9 live_state) (SharedPtr_UseCount 0) = Inr 1
   \<and> SharedPtr_Reset_raw 0 7 live_state = Inr live_state"
proof -
  have h: "shared_ok 0 live_state"
    by (simp add: shared_ok_def live_state_def sp_at_def block_at_def)
  have t: "sp_at live_state 0 = Some \<lparr>block = 1, ptr = 7\<rparr>"
    by (simp add: live_state_def sp_at_def)
  have r: "SharedPtr_Reset 0 live_state
           = Inr \<lparr>blocks = (\<lambda>_. None)(1 \<mapsto> \<lparr>strong = 0, weak = 1, variant = Referencing 0\<rparr>),
                  high = 1, shared_objs = [Some \<lparr>block = 0, ptr = 0\<rparr>],
                  weak_objs = [Some \<lparr>wblock = 1, wptr = 7\<rparr>],
                  trace = [WeakAdded 1, StrongRemoved 1, DefaultDelete 7]\<rparr>"
    by (simp add: eval_defs live_state_def)
  have hi: "high live_state = 1"
    by (simp add: live_state_def)
  from C6_reset_raw_amended [OF h, of 9] C6_reset_raw_amended [OF h, of 7] h t r hi
  show ?thesis
    by (auto simp: sp_put_def)
qed

section \<open>Assignment\<close>

text \<open>
  Claim C4. Self-assignment is the no-op the claim describes. The order is not the one
  the claim requires: \<open>operator=\<close> calls \<open>Reset(ptr, block)\<close>, which releases the old
  reference, and only afterwards \<open>AddStrong()\<close> on the adopted block. At \<open>a = b\<close>
  with \<open>a\<close> the last owner of block \<open>1\<close> and \<open>b\<close> an owner of block \<open>2\<close>, the
  pointee \<open>7\<close> and block \<open>1\<close> are deleted before the count of block \<open>2\<close> goes up;
  the same holds for \<open>a = std::move(b)\<close>. With the new reference added first, the
  adopted block could not lose its last owner while the old pointee is being destroyed.
\<close>

theorem C4_release_precedes_add:
  "SharedPtr_GetControlBlock 0 two_blocks_state = Inr 1
   \<and> SharedPtr_GetControlBlock 1 two_blocks_state = Inr 2
   \<and> trace two_blocks_state = []
   \<and> seq (SharedPtr_copy_assign 0 1 two_blocks_state) (observe trace)
      = Inr [StrongRemoved 1, DefaultDelete 7, BlockDeleted 1, StrongAdded 2]
   \<and> seq (SharedPtr_move_assign 0 1 two_blocks_state) (observe trace)
      = Inr [StrongRemoved 1, DefaultDelete 7, BlockDeleted 1, StrongAdded 2, StrongRemoved 2]"
  by (simp add: eval_defs two_blocks_state_def)

text \<open>
  The same order at every pair of distinct objects that hold different control blocks:
  what copy assignment returns is the state after \<open>Reset()\<close> of the destination, with
  the source's address and block stored in the destination and then one \<open>AddStrong()\<close>
  on that block when it is not null.
\<close>

lemma assignment_releases_first:
  "SharedPtr_copy_assign this this s = Inr s
   \<and> SharedPtr_move_assign this this s = Inr s
   \<and> (this \<noteq> other \<and> shared_ok this s \<and> shared_ok other s
        \<and> SharedPtr_GetControlBlock this s \<noteq> SharedPtr_GetControlBlock other s \<longrightarrow>
       (\<exists>t ot s1 s2 s3 evs.
          sp_at s this = Some t \<and> sp_at s other = Some ot
          \<and> SharedPtr_Reset this s = Inr s1
          \<and> trace s1 = trace s @ (if block t = 0 then [] else StrongRemoved (block t) # evs)
          \<and> (if block ot = 0 then Inr (sp_put this ot s1)
              else call_AddStrong (block ot) (sp_put this ot s1)) = Inr s2
          \<and> trace s2 = trace s1 @ (if block ot = 0 then [] else [StrongAdded (block ot)])
          \<and> SharedPtr_copy_assign this other s = Inr s2
          \<and> SharedPtr_Reset other s2 = Inr s3
          \<and> SharedPtr_move_assign this other s = Inr s3))"
proof -
  have self: "SharedPtr_copy_assign this this s = Inr s"
    "SharedPtr_move_assign this this s = Inr s"
    by (simp_all add: SharedPtr_copy_assign_def SharedPtr_move_assign_def)
  have other: "\<exists>t ot s1 s2 s3 evs.
          sp_at s this = Some t \<and> sp_at s other = Some ot
          \<and> SharedPtr_Reset this s = Inr s1
          \<and> trace s1 = trace s @ (if block t = 0 then [] else StrongRemoved (block t) # evs)
          \<and> (if block ot = 0 then Inr (sp_put this ot s1)
              else call_AddStrong (block ot) (sp_put this ot s1)) = Inr s2
          \<and> trace s2 = trace s1 @ (if block ot = 0 then [] else [StrongAdded (block ot)])
          \<and> SharedPtr_copy_assign this other s = Inr s2
          \<and> SharedPtr_Reset other s2 = Inr s3
          \<and> SharedPtr_move_assign this other s = Inr s3"
    if ne: "this \<noteq> other" and ok1: "shared_ok this s" and ok2: "shared_ok other s"
      and nb: "SharedPtr_GetControlBlock this s \<noteq> SharedPtr_GetControlBlock other s"
  proof -
    from ok1 obtain t where t: "sp_at s this = Some t"
      by (auto simp: shared_ok_def split: option.splits)
    from ok2 obtain ot where ot: "sp_at s other = Some ot"
      by (auto simp: shared_ok_def split: option.splits)
    from nb t ot have bne: "block t \<noteq> block ot"
      by (simp add: SharedPtr_GetControlBlock_def)
    from Reset_total [OF ok1] obtain s1 where s1: "SharedPtr_Reset this s = Inr s1" ..
    note fr = Reset_frame [OF s1 t]
    from fr(8) obtain evs where
      tr1: "trace s1 = trace s @ (if block t = 0 then [] else StrongRemoved (block t) # evs)" ..
    define s1' where "s1' = sp_put this ot s1"
    have lt: "this < length (shared_objs s1)"
      using sp_at_SomeD [OF t] fr(1) by simp
    have this': "sp_at s1' this = Some ot"
      using lt by (simp add: s1'_def sp_at_sp_put)
    have other': "sp_at s1' other = Some ot"
      using fr(2) [of other] ne ot by (simp add: s1'_def sp_at_sp_put)
    have blk: "block_at s1' (block ot) = block_at s (block ot)"
      using fr(6) [of "block ot"] bne by (simp add: s1'_def)
    have "\<exists>s2. (if block ot = 0 then Inr s1' else call_AddStrong (block ot) s1') = Inr s2"
      using ok2 ot blk by (auto simp: shared_ok_def call_AddStrong_def split: option.splits)
    then obtain s2 where
      s2: "(if block ot = 0 then Inr s1' else call_AddStrong (block ot) s1') = Inr s2" ..
    have tr2: "trace s2 = trace s1 @ (if block ot = 0 then [] else [StrongAdded (block ot)])"
      using s2 by (auto simp: s1'_def call_AddStrong_def store_defs split: if_splits option.splits)
    have eta: "\<lparr>block = block ot, ptr = ptr ot\<rparr> = ot"
      by simp
    have adopt: "SharedPtr_Reset_adopt this (ptr ot) (block ot) s = Inr s1'"
      using t bne s1 by (simp add: SharedPtr_Reset_adopt_def seq_def s1'_def eta)
    have ca: "SharedPtr_copy_assign this other s = Inr s2"
      using ne ot adopt this' s2
      by (auto simp: SharedPtr_copy_assign_def seq_def split: if_splits)
    have ok2': "shared_ok other s2"
      using s2 other' ok2 ot blk
      by (auto simp: shared_ok_def call_AddStrong_def store_defs split: if_splits option.splits)
    from Reset_total [OF ok2'] obtain s3 where s3: "SharedPtr_Reset other s2 = Inr s3" ..
    have ma: "SharedPtr_move_assign this other s = Inr s3"
      using ne ot adopt this' s2 s3
      by (auto simp: SharedPtr_move_assign_def seq_def split: if_splits)
    from t ot s1 tr1 s2 tr2 ca s3 ma show ?thesis
      unfolding s1'_def by blast
  qed
  from self other show ?thesis by blast
qed

section \<open>Use count and live owners\<close>

text \<open>
  Claim C1 fails on the code at an assignment between two distinct objects that share a
  control block. \<open>Reset(ptr, block)\<close> returns early because the blocks are equal, and
  \<open>operator=\<close> calls \<open>AddStrong()\<close> all the same. After the copy assignment
  \<open>b = a\<close> of two owners of block \<open>1\<close>, \<open>UseCount()\<close> is \<open>3\<close> with \<open>2\<close>
  live owners; after the move assignment it is \<open>2\<close> with \<open>1\<close> live owner.
\<close>

theorem C1_same_block_assignment_miscounts:
  "SharedPtr_GetControlBlock 0 shared_pair_state = Inr 1
   \<and> SharedPtr_GetControlBlock 1 shared_pair_state = Inr 1
   \<and> SharedPtr_UseCount 0 shared_pair_state = Inr 2
   \<and> owners 1 shared_pair_state = 2
   \<and> seq (SharedPtr_copy_assign 1 0 shared_pair_state) (SharedPtr_UseCount 0) = Inr 3
   \<and> seq (SharedPtr_copy_assign 1 0 shared_pair_state) (observe (owners 1)) = Inr 2
   \<and> seq (SharedPtr_move_assign 1 0 shared_pair_state) (SharedPtr_UseCount 1) = Inr 2
   \<and> seq (SharedPtr_move_assign 1 0 shared_pair_state) (observe (owners 1)) = Inr 1"
  by (simp add: eval_defs shared_pair_state_def owners_def holds_def)

section \<open>Counting owners and observers\<close>

lemma count_update:
  "i < length xs \<Longrightarrow>
   length (filter P (xs[i := y])) + (if P (xs ! i) then 1 else 0)
     = length (filter P xs) + (if P y then 1 else 0)"
proof (induction xs arbitrary: i)
  case Nil
  then show ?case by simp
next
  case (Cons x xs)
  then show ?case by (cases i) auto
qed

lemma count_pos:
  "i < length xs \<Longrightarrow> P (xs ! i) \<Longrightarrow> 0 < length (filter P xs)"
  by (metis filter_empty_conv length_greater_0_conv nth_mem)

lemma size_t_of_nat_eq_0:
  "n < 2 ^ 64 \<Longrightarrow> (of_nat n = (0 :: size_t)) \<longleftrightarrow> n = 0"
  by (auto simp: word_of_nat_eq_0_iff dest: dvd_imp_le)

lemma size_t_sum_eq_0:
  "m + n < 2 ^ 64 \<Longrightarrow> (of_nat m + of_nat n = (0 :: size_t)) \<longleftrightarrow> m = 0 \<and> n = 0"
  using size_t_of_nat_eq_0 [of "m + n"] by simp

lemma size_t_of_nat_pred:
  "0 < n \<Longrightarrow> (of_nat n :: size_t) - 1 = of_nat (n - 1)"
  by (cases n) simp_all

lemma RemoveStrong_result:
  "\<exists>r c' evs. RemoveStrong this c = (r, c', evs)
     \<and> strong c' = strong c - 1 \<and> weak c' = weak c
     \<and> (r \<longleftrightarrow> strong c - 1 + weak c = 0)
     \<and> BlockDeleted x \<notin> set evs
     \<and> (strong c - 1 \<noteq> 0 \<longrightarrow> evs = [] \<and> c' = c\<lparr>strong := strong c - 1\<rparr>)
     \<and> (strong c - 1 = 0 \<longrightarrow> (c', evs) = OnZeroStrong this (c\<lparr>strong := 0\<rparr>))"
  by (cases "variant c") (auto simp: RemoveStrong_def Let_def)

lemma owners_simps [simp]:
  "owners b (emit evs s) = owners b s"
  "owners b (put_block a c s) = owners b s"
  "owners b (delete_block a s) = owners b s"
  "owners b (wp_put w v s) = owners b s"
  "owners b (wp_end w s) = owners b s"
  "owners b (wp_new v s) = owners b s"
  by (simp_all add: owners_def store_defs)

lemma observers_simps [simp]:
  "observers b (emit evs s) = observers b s"
  "observers b (put_block a c s) = observers b s"
  "observers b (delete_block a s) = observers b s"
  "observers b (sp_put i v s) = observers b s"
  "observers b (sp_end i s) = observers b s"
  "observers b (sp_new v s) = observers b s"
  by (simp_all add: observers_def store_defs)

lemma owners_sp_put:
  assumes "sp_at s i = Some t"
  shows "owners b (sp_put i v s) + (if block t = b then 1 else 0)
         = owners b s + (if block v = b then 1 else 0)"
  using count_update [of i "shared_objs s" "holds b" "Some v"] sp_at_SomeD [OF assms]
  by (simp add: owners_def sp_put_def holds_def)

lemma owners_sp_end:
  assumes "sp_at s i = Some t"
  shows "owners b (sp_end i s) + (if block t = b then 1 else 0) = owners b s"
  using count_update [of i "shared_objs s" "holds b" None] sp_at_SomeD [OF assms]
  by (simp add: owners_def sp_end_def holds_def)

lemma owners_sp_new:
  "owners b (sp_new v s) = owners b s + (if block v = b then 1 else 0)"
  by (simp add: owners_def sp_new_def holds_def)

lemma wp_at_SomeD:
  "wp_at s i = Some t \<Longrightarrow> i < length (weak_objs s) \<and> weak_objs s ! i = Some t"
  by (simp add: wp_at_def split: if_splits)

lemma observers_wp_put:
  assumes "wp_at s i = Some t"
  shows "observers b (wp_put i v s) + (if wblock t = b then 1 else 0)
         = observers b s + (if wblock v = b then 1 else 0)"
  using count_update [of i "weak_objs s" "wholds b" "Some v"] wp_at_SomeD [OF assms]
  by (simp add: observers_def wp_put_def wholds_def)

lemma observers_wp_end:
  assumes "wp_at s i = Some t"
  shows "observers b (wp_end i s) + (if wblock t = b then 1 else 0) = observers b s"
  using count_update [of i "weak_objs s" "wholds b" None] wp_at_SomeD [OF assms]
  by (simp add: observers_def wp_end_def wholds_def)

lemma observers_wp_new:
  "observers b (wp_new v s) = observers b s + (if wblock v = b then 1 else 0)"
  by (simp add: observers_def wp_new_def wholds_def)

lemma owner_counts:
  assumes "sp_at s i = Some t"
  shows "0 < owners (block t) s"
  using count_pos [of i "shared_objs s" "holds (block t)"] sp_at_SomeD [OF assms]
  by (simp add: owners_def holds_def)

lemma observer_counts:
  assumes "wp_at s w = Some t"
  shows "0 < observers (wblock t) s"
  using count_pos [of w "weak_objs s" "wholds (wblock t)"] wp_at_SomeD [OF assms]
  by (simp add: observers_def wholds_def)

lemma all_expired_iff:
  assumes "b \<noteq> 0" and "block_at s b = Some c"
  shows "all_expired b s \<longleftrightarrow> (observers b s = 0 \<or> strong c = 0)"
proof
  assume a: "all_expired b s"
  show "observers b s = 0 \<or> strong c = 0"
  proof (cases "observers b s = 0")
    case False
    then obtain x where "x \<in> set (weak_objs s)" "wholds b x"
      by (auto simp: observers_def filter_empty_conv)
    then obtain w t where "w < length (weak_objs s)" "weak_objs s ! w = Some t" "wblock t = b"
      by (auto simp: in_set_conv_nth wholds_def split: option.splits)
    then have "WeakPtr_GetControlBlock w s = Inr b" and "WeakPtr_Expired w s = Inr (strong c = 0)"
      using assms
      by (simp_all add: WeakPtr_GetControlBlock_def WeakPtr_Expired_def WeakPtr_UseCount_def
          wp_at_def call_GetStrong_def GetStrong_def seq_def)
    with a show ?thesis by (simp add: all_expired_def)
  qed simp
next
  assume a: "observers b s = 0 \<or> strong c = 0"
  show "all_expired b s"
    unfolding all_expired_def
  proof (intro allI impI)
    fix w assume "WeakPtr_GetControlBlock w s = Inr b"
    then obtain t where t: "wp_at s w = Some t" "wblock t = b"
      by (auto simp: WeakPtr_GetControlBlock_def split: option.splits)
    with observer_counts [of s w t] a have "strong c = 0" by auto
    with t assms show "WeakPtr_Expired w s = Inr True"
      by (simp add: WeakPtr_Expired_def WeakPtr_UseCount_def call_GetStrong_def GetStrong_def
          seq_def)
  qed
qed

lemma block_at_SomeD:
  "block_at s b = Some c \<Longrightarrow> b \<noteq> 0 \<and> b \<le> high s \<and> blocks s b = Some c"
  by (simp add: block_at_def split: if_splits)

lemma sp_at_frame [simp]:
  "sp_at (emit evs s) i = sp_at s i"
  "sp_at (put_block a c s) i = sp_at s i"
  "sp_at (delete_block a s) i = sp_at s i"
  "sp_at (wp_put w v s) i = sp_at s i"
  "sp_at (wp_new v s) i = sp_at s i"
  "sp_at (wp_end w s) i = sp_at s i"
  by (simp_all add: sp_at_def store_defs)

lemma wp_at_frame [simp]:
  "wp_at (emit evs s) i = wp_at s i"
  "wp_at (put_block a c s) i = wp_at s i"
  "wp_at (delete_block a s) i = wp_at s i"
  "wp_at (sp_put j v s) i = wp_at s i"
  "wp_at (sp_new v s) i = wp_at s i"
  "wp_at (sp_end j s) i = wp_at s i"
  by (simp_all add: wp_at_def store_defs)

lemma wp_at_wp_put:
  "wp_at (wp_put i v s) j = (if j = i \<and> i < length (weak_objs s) then Some v else wp_at s j)"
  by (simp add: wp_at_def wp_put_def)

lemma block_at_emit [simp]: "block_at (emit evs s) b = block_at s b"
  by (simp add: block_at_def emit_def)

lemma block_at_wp [simp]:
  "block_at (wp_put i v s) b = block_at s b"
  "block_at (wp_new v s) b = block_at s b"
  "block_at (wp_end i s) b = block_at s b"
  by (simp_all add: block_at_def wp_put_def wp_new_def wp_end_def)

lemma block_at_put_block:
  "block_at (put_block a c s) b
     = (if b = a \<and> a \<noteq> 0 \<and> a \<le> high s then Some c else block_at s b)"
  by (auto simp: block_at_def put_block_def)

lemma block_at_delete_block:
  "block_at (delete_block a s) b = (if b = a then None else block_at s b)"
  by (auto simp: block_at_def delete_block_def emit_def)

lemma trace_simps [simp]:
  "trace (put_block a c s) = trace s"
  "trace (sp_put i v s) = trace s"
  "trace (sp_new v s) = trace s"
  "trace (sp_end i s) = trace s"
  "trace (wp_put i w s) = trace s"
  "trace (wp_new w s) = trace s"
  "trace (wp_end i s) = trace s"
  "trace (emit evs s) = trace s @ evs"
  "trace (delete_block a s) = trace s @ [BlockDeleted a]"
  by (simp_all add: store_defs)

lemma events_since_append [simp]:
  "trace s' = trace s @ evs \<Longrightarrow> events_since s s' = evs"
  by (simp add: events_since_def)

lemma SharedPtr_Reset_eq:
  assumes "sp_at s i = Some t" and "block t \<noteq> 0" and "block_at s (block t) = Some c"
    and "RemoveStrong (block t) c = (r, c', evs)"
  shows "SharedPtr_Reset i s
         = Inr (sp_put i \<lparr>block = 0, ptr = 0\<rparr>
                 (if r then delete_block (block t)
                             (emit (StrongRemoved (block t) # evs) (put_block (block t) c' s))
                  else emit (StrongRemoved (block t) # evs) (put_block (block t) c' s)))"
  using assms by (simp add: SharedPtr_Reset_def seq_def call_RemoveStrong_def)

lemma WeakPtr_Reset_eq:
  assumes "wp_at s w = Some t" and "wblock t \<noteq> 0" and "block_at s (wblock t) = Some c"
    and "RemoveWeak c = (r, c')"
  shows "WeakPtr_Reset w s
         = Inr (wp_put w \<lparr>wblock = 0, wptr = 0\<rparr>
                 (if r then delete_block (wblock t)
                             (emit [WeakRemoved (wblock t)] (put_block (wblock t) c' s))
                  else emit [WeakRemoved (wblock t)] (put_block (wblock t) c' s)))"
  using assms by (simp add: WeakPtr_Reset_def seq_def call_RemoveWeak_def)

text \<open>
  What \<open>Reset()\<close> does on a block whose counts are the numbers of its live owners and
  observers: the release of the only owner leaves the block allocated and every observer
  expired; the release of an observer deletes the block exactly when it was the last
  one and no owner is left.
\<close>

lemma last_owner_released:
  assumes b: "b \<noteq> 0" and cnt: "counted b s" and t: "sp_at s i = Some t" "block t = b"
    and one: "owners b s = 1" and obs: "0 < observers b s"
  shows "\<exists>s'. SharedPtr_Reset i s = Inr s' \<and> counted b s' \<and> owners b s' = 0
           \<and> observers b s' = observers b s \<and> sp_at s' i = Some \<lparr>block = 0, ptr = 0\<rparr>
           \<and> (\<exists>evs. trace s' = trace s @ evs \<and> BlockDeleted b \<notin> set evs)
           \<and> all_expired b s'"
proof -
  from cnt one obtain c where c: "block_at s b = Some c" and sc: "strong c = 1"
    and wc: "weak c = of_nat (observers b s)" and bound: "1 + observers b s < 2 ^ 64"
    by (auto simp: counted_def split: option.splits)
  from RemoveStrong_result [of b c b] sc obtain r c' evs where
    rs: "RemoveStrong b c = (r, c', evs)" and sc': "strong c' = 0" and wc': "weak c' = weak c"
    and r: "r \<longleftrightarrow> weak c = 0" and nd: "BlockDeleted b \<notin> set evs"
    by auto
  from wc obs bound have "weak c \<noteq> 0"
    by (simp add: size_t_of_nat_eq_0)
  with r have nr: "\<not> r" by simp
  define s' where "s' = sp_put i \<lparr>block = 0, ptr = 0\<rparr>
                              (emit (StrongRemoved b # evs) (put_block b c' s))"
  have reset: "SharedPtr_Reset i s = Inr s'"
    using SharedPtr_Reset_eq [OF t(1) _ _ rs [folded t(2)]] b c t(2) nr by (simp add: s'_def)
  have blk: "block_at s' b = Some c'"
    using block_at_SomeD [OF c] by (simp add: s'_def block_at_put_block)
  have t': "sp_at (emit (StrongRemoved b # evs) (put_block b c' s)) i = Some t"
    using t(1) by simp
  have own: "owners b s' = 0"
    using owners_sp_put [OF t', of b "\<lparr>block = 0, ptr = 0\<rparr>"] t(2) b one
    by (simp add: s'_def)
  have obs': "observers b s' = observers b s"
    by (simp add: s'_def)
  have cnt': "counted b s'"
    using blk own obs' sc' wc' wc bound by (simp add: counted_def)
  have at: "sp_at s' i = Some \<lparr>block = 0, ptr = 0\<rparr>"
    using sp_at_SomeD [OF t'] by (simp add: s'_def sp_at_sp_put)
  have tr: "trace s' = trace s @ StrongRemoved b # evs"
    by (simp add: s'_def)
  have ex: "all_expired b s'"
    using all_expired_iff [OF b blk] sc' by simp
  from reset cnt' own obs' at tr nd ex show ?thesis by auto
qed

lemma observer_released:
  assumes b: "b \<noteq> 0" and cnt: "counted b s" and t: "wp_at s w = Some t" "wblock t = b"
    and none: "owners b s = 0"
  shows "\<exists>s'. WeakPtr_Reset w s = Inr s' \<and> observers b s' + 1 = observers b s
           \<and> owners b s' = 0 \<and> wp_at s' w = Some \<lparr>wblock = 0, wptr = 0\<rparr>
           \<and> (if observers b s = 1
               then block_at s' b = None \<and> trace s' = trace s @ [WeakRemoved b, BlockDeleted b]
               else counted b s' \<and> all_expired b s' \<and> trace s' = trace s @ [WeakRemoved b])"
proof -
  from cnt none obtain c where c: "block_at s b = Some c" and sc: "strong c = 0"
    and wc: "weak c = of_nat (observers b s)" and bound: "observers b s < 2 ^ 64"
    by (auto simp: counted_def split: option.splits)
  from observer_counts [OF t(1)] t(2) have pos: "0 < observers b s" by simp
  define c' where "c' = c\<lparr>weak := weak c - 1\<rparr>"
  have "weak c' = of_nat (observers b s) - 1"
    by (simp add: c'_def wc)
  also have "\<dots> = of_nat (observers b s - 1)"
    by (rule size_t_of_nat_pred [OF pos])
  finally have wc': "weak c' = of_nat (observers b s - 1)" .
  have "observers b s - 1 < 2 ^ 64"
    using bound by simp
  from size_t_of_nat_eq_0 [OF this] pos
  have z: "weak c' = 0 \<longleftrightarrow> observers b s = 1"
    unfolding wc' by auto
  have rw: "RemoveWeak c = (observers b s = 1, c')"
    using sc z by (simp add: RemoveWeak_def Let_def c'_def)
  define s1 where "s1 = emit [WeakRemoved b] (put_block b c' s)"
  define s' where "s' = wp_put w \<lparr>wblock = 0, wptr = 0\<rparr>
                              (if observers b s = 1 then delete_block b s1 else s1)"
  have reset: "WeakPtr_Reset w s = Inr s'"
    using WeakPtr_Reset_eq [OF t(1) _ _ rw [folded t(2)]] b c t(2)
    by (simp add: s'_def s1_def)
  have t': "wp_at (if observers b s = 1 then delete_block b s1 else s1) w = Some t"
    using t(1) by (simp add: s1_def)
  have obs': "observers b s' + 1 = observers b s"
    using observers_wp_put [OF t', of b "\<lparr>wblock = 0, wptr = 0\<rparr>"] t(2) b
    by (simp add: s'_def s1_def)
  have own: "owners b s' = 0"
    using none by (simp add: s'_def s1_def)
  have at: "wp_at s' w = Some \<lparr>wblock = 0, wptr = 0\<rparr>"
    using wp_at_SomeD [OF t'] by (simp add: s'_def wp_at_wp_put)
  show ?thesis
  proof (cases "observers b s = 1")
    case True
    have "block_at s' b = None"
      using True by (simp add: s'_def block_at_delete_block)
    moreover have "trace s' = trace s @ [WeakRemoved b, BlockDeleted b]"
      using True by (simp add: s'_def s1_def)
    ultimately show ?thesis using reset obs' own at True by auto
  next
    case False
    have blk: "block_at s' b = Some c'"
      using False block_at_SomeD [OF c] by (simp add: s'_def s1_def block_at_put_block)
    have eq: "observers b s' = observers b s - 1"
      using obs' by simp
    have "strong c' = 0"
      using sc by (simp add: c'_def)
    then have "counted b s'"
      using blk own wc' bound by (simp add: counted_def eq)
    moreover have "all_expired b s'"
      using all_expired_iff [OF b blk] sc by (simp add: c'_def)
    moreover have "trace s' = trace s @ [WeakRemoved b]"
      using False by (simp add: s'_def s1_def)
    ultimately show ?thesis using reset obs' own at False by auto
  qed
qed

section \<open>Expiry\<close>

text \<open>
  Claim C7. In the run \<open>a(7); b(a); w(a); ~a; ~b\<close> the claim holds: after the last
  owner is destroyed the pointee has been deleted, the block is still allocated for its
  observer \<open>w\<close>, and \<open>w.Expired()\<close> is true. With one assignment between the two
  owners before they are destroyed (\<open>b = a\<close>, or \<open>b = std::move(a)\<close>) it fails:
  the assignment adds a strong reference that no object holds (the defect of claim C1),
  so after both owners are gone the strong count is still \<open>1\<close>, the pointee was never
  deleted, and \<open>w.Expired()\<close> is false although no \<open>SharedPtr\<close> is left.
\<close>

theorem C7_not_expired_after_last_owner:
  "seq (run_ops expiry_run init) (WeakPtr_Expired 0) = Inr True
   \<and> seq (run_ops expiry_run init) (observe trace)
      = Inr [StrongAdded 1, WeakAdded 1, StrongRemoved 1, StrongRemoved 1, DefaultDelete 7]
   \<and> seq (run_ops expiry_run init) (WeakPtr_UseCount 0) = Inr 0
   \<and> seq (run_ops leaking_run init) (observe (owners 1)) = Inr 0
   \<and> seq (run_ops leaking_run init) (observe (observers 1)) = Inr 1
   \<and> seq (run_ops leaking_run init) (WeakPtr_Expired 0) = Inr False
   \<and> seq (run_ops leaking_run init) (WeakPtr_UseCount 0) = Inr 1
   \<and> seq (run_ops leaking_run init) (observe trace)
      = Inr [StrongAdded 1, WeakAdded 1, StrongAdded 1, StrongRemoved 1, StrongRemoved 1]
   \<and> seq (run_ops leaking_move_run init) (observe (owners 1)) = Inr 0
   \<and> seq (run_ops leaking_move_run init) (WeakPtr_Expired 0) = Inr False
   \<and> seq (run_ops leaking_move_run init) (observe trace)
      = Inr [StrongAdded 1, WeakAdded 1, StrongAdded 1, StrongRemoved 1, StrongRemoved 1]"
  by (simp add: expiry_run_def leaking_run_def leaking_move_run_def run_defs
      WeakPtr_from_shared_def WeakPtr_Expired_def WeakPtr_UseCount_def sp_at_sp_put
      owners_def observers_def holds_def wholds_def)

section \<open>Copies of one pointer, destroyed in any order\<close>

lemma sp_at_family:
  "sp_at (family s v objs m evs) (length (shared_objs s) + idx)
     = (if idx < length objs then objs ! idx else None)"
  by (simp add: sp_at_def family_def nth_append)

lemma block_at_family:
  "block_at (family s v objs m evs) (Suc (high s))
     = Some \<lparr>strong = of_nat m, weak = 0, variant = v\<rparr>"
  by (simp add: block_at_def family_def)

lemma raw_family:
  "SharedPtr_raw p s
   = Inr (family s (Referencing p) [Some \<lparr>block = Suc (high s), ptr = p\<rparr>] 1 [])"
  by (simp add: SharedPtr_raw_def family_def new_block_def new_ControlBlock_def sp_new_def Let_def)

lemma make_family:
  "MakeShared storage_of s
   = Inr (family s Embedding [Some \<lparr>block = Suc (high s), ptr = storage_of (Suc (high s))\<rparr>] 1 [])"
  by (simp add: MakeShared_def SharedPtr_adopt_def family_def new_block_def new_ControlBlock_def
      sp_new_def Let_def)

lemma copy_family:
  assumes "idx < length objs" and "objs ! idx = Some \<lparr>block = Suc (high s), ptr = q\<rparr>"
  shows "SharedPtr_copy (length (shared_objs s) + idx) (family s v objs m evs)
         = Inr (family s v (objs @ [Some \<lparr>block = Suc (high s), ptr = q\<rparr>]) (Suc m)
                  (evs @ [StrongAdded (Suc (high s))]))"
  using assms
  by (simp add: SharedPtr_copy_def sp_at_family call_AddStrong_def block_at_def AddStrong_def
      Let_def)
     (simp add: family_def sp_new_def emit_def put_block_def AddStrong_def add.commute)

lemma destroy_family:
  assumes "idx < length objs" and "objs ! idx = Some \<lparr>block = Suc (high s), ptr = q\<rparr>"
    and "1 < m" and "m < 2 ^ 64"
  shows "SharedPtr_destroy (length (shared_objs s) + idx) (family s v objs m evs)
         = Inr (family s v (objs[idx := None]) (m - 1)
                  (evs @ [StrongRemoved (Suc (high s))]))"
proof -
  have "m - 1 \<noteq> 0" and "m - 1 < 2 ^ 64" using assms by simp_all
  with size_t_of_nat_eq_0 [of "m - 1"] have nz: "(of_nat (m - 1) :: size_t) \<noteq> 0"
    by blast
  have pred: "(of_nat m :: size_t) - 1 = of_nat (m - 1)"
    using assms(3) by (intro size_t_of_nat_pred) simp
  have rs: "RemoveStrong (Suc (high s)) \<lparr>strong = of_nat m, weak = 0, variant = v\<rparr>
            = (False, \<lparr>strong = of_nat (m - 1), weak = 0, variant = v\<rparr>, [])"
    using nz unfolding RemoveStrong_def Let_def by (simp add: pred del: of_nat_diff)
  have at: "sp_at (family s v objs m evs) (length (shared_objs s) + idx)
            = Some \<lparr>block = Suc (high s), ptr = q\<rparr>"
    using assms by (simp add: sp_at_family)
  have "SharedPtr_Reset (length (shared_objs s) + idx) (family s v objs m evs)
        = Inr (family s v (objs[idx := Some \<lparr>block = 0, ptr = 0\<rparr>]) (m - 1)
                 (evs @ [StrongRemoved (Suc (high s))]))"
    using SharedPtr_Reset_eq [OF at, of _ False _ "[]"] rs block_at_family [of s v objs m evs]
    by (simp add: family_def sp_put_def emit_def put_block_def list_update_append)
  then show ?thesis
    by (simp add: SharedPtr_destroy_def seq_def family_def sp_end_def list_update_append)
qed

lemma destroy_last_family:
  assumes "idx < length objs" and "objs ! idx = Some \<lparr>block = Suc (high s), ptr = q\<rparr>"
    and hook: "snd (OnZeroStrong (Suc (high s)) \<lparr>strong = 0, weak = 0, variant = v\<rparr>) = hevs"
  shows "SharedPtr_destroy (length (shared_objs s) + idx) (family s v objs 1 evs)
         = Inr (family_gone s (objs[idx := None])
                  (evs @ StrongRemoved (Suc (high s)) # hevs @ [BlockDeleted (Suc (high s))]))"
proof -
  define c' where "c' = fst (OnZeroStrong (Suc (high s)) \<lparr>strong = 0, weak = 0, variant = v\<rparr>)"
  have hk: "OnZeroStrong (Suc (high s)) \<lparr>strong = 0, weak = 0, variant = v\<rparr> = (c', hevs)"
    using hook by (simp add: c'_def prod_eq_iff)
  have cnt: "strong c' = 0" "weak c' = 0"
    using OnZeroStrong_counts [of "Suc (high s)" "\<lparr>strong = 0, weak = 0, variant = v\<rparr>"]
    by (simp_all add: c'_def)
  have rs: "RemoveStrong (Suc (high s)) \<lparr>strong = of_nat 1, weak = 0, variant = v\<rparr>
            = (True, c', hevs)"
    unfolding RemoveStrong_def Let_def using hk cnt by simp
  have at: "sp_at (family s v objs 1 evs) (length (shared_objs s) + idx)
            = Some \<lparr>block = Suc (high s), ptr = q\<rparr>"
    using assms by (simp add: sp_at_family)
  have "SharedPtr_Reset (length (shared_objs s) + idx) (family s v objs 1 evs)
        = Inr (family_gone s (objs[idx := Some \<lparr>block = 0, ptr = 0\<rparr>])
                 (evs @ StrongRemoved (Suc (high s)) # hevs @ [BlockDeleted (Suc (high s))]))"
    using SharedPtr_Reset_eq [OF at, of _ True c' hevs] rs block_at_family [of s v objs 1 evs]
    by (simp add: family_def family_gone_def sp_put_def emit_def put_block_def delete_block_def
        list_update_append)
  then show ?thesis
    by (simp add: SharedPtr_destroy_def seq_def family_gone_def sp_end_def list_update_append)
qed

lemma copy_each_family:
  assumes "\<forall>j < length srcs. \<exists>idx. srcs ! j = length (shared_objs s) + idx \<and> idx < m + j"
  shows "copy_each srcs
           (family s v (replicate m (Some \<lparr>block = Suc (high s), ptr = q\<rparr>)) m evs)
         = Inr (family s v
                  (replicate (m + length srcs) (Some \<lparr>block = Suc (high s), ptr = q\<rparr>))
                  (m + length srcs)
                  (evs @ replicate (length srcs) (StrongAdded (Suc (high s)))))"
  using assms
proof (induction srcs arbitrary: m evs)
  case Nil
  then show ?case by simp
next
  case (Cons src rest)
  from Cons.prems [rule_format, of 0] obtain idx where
    src: "src = length (shared_objs s) + idx" and idx: "idx < m" by auto
  have step: "SharedPtr_copy src
                (family s v (replicate m (Some \<lparr>block = Suc (high s), ptr = q\<rparr>)) m evs)
              = Inr (family s v (replicate (Suc m) (Some \<lparr>block = Suc (high s), ptr = q\<rparr>))
                       (Suc m) (evs @ [StrongAdded (Suc (high s))]))"
    unfolding src using copy_family [of idx "replicate m (Some \<lparr>block = Suc (high s), ptr = q\<rparr>)"
        s q v m evs] idx
    by (simp add: replicate_append_same)
  have rest: "\<forall>j < length rest. \<exists>idx. rest ! j = length (shared_objs s) + idx \<and> idx < Suc m + j"
  proof (intro allI impI)
    fix j assume "j < length rest"
    with Cons.prems [rule_format, of "Suc j"] show
      "\<exists>idx. rest ! j = length (shared_objs s) + idx \<and> idx < Suc m + j"
      by auto
  qed
  from Cons.IH [OF rest, of "evs @ [StrongAdded (Suc (high s))]"] step
  show ?case
    by (simp add: seq_def replicate_append_same)
qed

lemma destroy_each_family:
  assumes "distinct ds"
    and "\<forall>d \<in> set ds. \<exists>idx. d = length (shared_objs s) + idx \<and> idx < length objs
            \<and> objs ! idx = Some \<lparr>block = Suc (high s), ptr = q\<rparr>"
    and "length ds < m" and "m < 2 ^ 64"
  shows "\<exists>objs'. destroy_each ds (family s v objs m evs)
           = Inr (family s v objs' (m - length ds)
                    (evs @ replicate (length ds) (StrongRemoved (Suc (high s)))))
         \<and> length objs' = length objs
         \<and> (\<forall>idx. length (shared_objs s) + idx \<notin> set ds \<longrightarrow> objs' ! idx = objs ! idx)"
  using assms
proof (induction ds arbitrary: objs m evs)
  case Nil
  have "destroy_each [] (family s v objs m evs)
           = Inr (family s v objs (m - length ([] :: nat list))
                    (evs @ replicate (length ([] :: nat list)) (StrongRemoved (Suc (high s)))))"
    by simp
  then show ?case by blast
next
  case (Cons d rest)
  from Cons.prems(2) obtain idx where
    d: "d = length (shared_objs s) + idx" and idx: "idx < length objs"
    and at: "objs ! idx = Some \<lparr>block = Suc (high s), ptr = q\<rparr>" by auto
  from Cons.prems(3) have m: "1 < m" by simp
  have step: "SharedPtr_destroy d (family s v objs m evs)
              = Inr (family s v (objs[idx := None]) (m - 1)
                       (evs @ [StrongRemoved (Suc (high s))]))"
    unfolding d by (rule destroy_family [OF idx at m Cons.prems(4)])
  have rest: "\<forall>d' \<in> set rest. \<exists>idx'. d' = length (shared_objs s) + idx'
                \<and> idx' < length (objs[idx := None])
                \<and> objs[idx := None] ! idx' = Some \<lparr>block = Suc (high s), ptr = q\<rparr>"
  proof
    fix d' assume d': "d' \<in> set rest"
    with Cons.prems(2) obtain idx' where
      1: "d' = length (shared_objs s) + idx'" "idx' < length objs"
        "objs ! idx' = Some \<lparr>block = Suc (high s), ptr = q\<rparr>" by auto
    from d' Cons.prems(1) d 1(1) have "idx' \<noteq> idx" by auto
    with 1 show "\<exists>idx'. d' = length (shared_objs s) + idx'
                \<and> idx' < length (objs[idx := None])
                \<and> objs[idx := None] ! idx' = Some \<lparr>block = Suc (high s), ptr = q\<rparr>"
      by auto
  qed
  from Cons.prems have dist: "distinct rest" and len: "length rest < m - 1" and b: "m - 1 < 2 ^ 64"
    by simp_all
  from Cons.IH [OF dist rest len b, of "evs @ [StrongRemoved (Suc (high s))]"]
  obtain objs' where
    run: "destroy_each rest (family s v (objs[idx := None]) (m - 1)
                               (evs @ [StrongRemoved (Suc (high s))]))
          = Inr (family s v objs' (m - 1 - length rest)
                   ((evs @ [StrongRemoved (Suc (high s))])
                    @ replicate (length rest) (StrongRemoved (Suc (high s)))))"
    and l: "length objs' = length (objs[idx := None])"
    and fr: "\<forall>idx'. length (shared_objs s) + idx' \<notin> set rest
               \<longrightarrow> objs' ! idx' = objs[idx := None] ! idx'"
    by blast
  have "destroy_each (d # rest) (family s v objs m evs)
           = Inr (family s v objs' (m - length (d # rest))
                    (evs @ replicate (length (d # rest)) (StrongRemoved (Suc (high s)))))"
    using step run by (simp add: seq_def)
  moreover have "length objs' = length objs" using l by simp
  moreover have "\<forall>idx'. length (shared_objs s) + idx' \<notin> set (d # rest)
                   \<longrightarrow> objs' ! idx' = objs ! idx'"
    using fr d by auto
  ultimately show ?case by blast
qed

lemma destroy_each_append:
  "destroy_each (xs @ ys) s = seq (destroy_each xs s) (destroy_each ys)"
proof (induction xs arbitrary: s)
  case Nil
  then show ?case by (simp add: seq_def)
next
  case (Cons x xs)
  then show ?case by (cases "SharedPtr_destroy x s") (simp_all add: seq_def)
qed

lemma destroy_all_family:
  assumes "distinct ds" and "ds \<noteq> []"
    and "\<forall>d \<in> set ds. \<exists>idx. d = length (shared_objs s) + idx \<and> idx < length objs
            \<and> objs ! idx = Some \<lparr>block = Suc (high s), ptr = q\<rparr>"
    and "length ds < 2 ^ 64"
    and hook: "snd (OnZeroStrong (Suc (high s)) \<lparr>strong = 0, weak = 0, variant = v\<rparr>) = hevs"
  shows "\<exists>objs'. destroy_each ds (family s v objs (length ds) evs)
           = Inr (family_gone s objs'
                    (evs @ replicate (length ds) (StrongRemoved (Suc (high s)))
                         @ hevs @ [BlockDeleted (Suc (high s))]))"
proof -
  define front where "front = butlast ds"
  define d where "d = last ds"
  have ds: "ds = front @ [d]"
    using assms(2) by (simp add: front_def d_def)
  have dist: "distinct front" and notin: "d \<notin> set front"
    using assms(1) unfolding ds by simp_all
  have mem: "\<forall>d' \<in> set front. \<exists>idx. d' = length (shared_objs s) + idx \<and> idx < length objs
            \<and> objs ! idx = Some \<lparr>block = Suc (high s), ptr = q\<rparr>"
    using assms(3) unfolding ds by simp
  have len: "length front < length ds"
    unfolding ds by simp
  from destroy_each_family [OF dist mem len assms(4), where evs = evs and v = v] obtain objs' where
    run: "destroy_each front (family s v objs (length ds) evs)
           = Inr (family s v objs' (length ds - length front)
                    (evs @ replicate (length front) (StrongRemoved (Suc (high s)))))"
    and l: "length objs' = length objs"
    and fr: "\<forall>idx. length (shared_objs s) + idx \<notin> set front \<longrightarrow> objs' ! idx = objs ! idx"
    by blast
  have one: "length ds - length front = 1"
    unfolding ds by simp
  from assms(3) obtain idx where
    d: "d = length (shared_objs s) + idx" and idx: "idx < length objs"
    and at: "objs ! idx = Some \<lparr>block = Suc (high s), ptr = q\<rparr>"
    unfolding ds by auto
  from fr notin d at have at': "objs' ! idx = Some \<lparr>block = Suc (high s), ptr = q\<rparr>"
    by simp
  from idx l have idx': "idx < length objs'" by simp
  have last: "SharedPtr_destroy d
                (family s v objs' 1 (evs @ replicate (length front) (StrongRemoved (Suc (high s)))))
              = Inr (family_gone s (objs'[idx := None])
                      ((evs @ replicate (length front) (StrongRemoved (Suc (high s))))
                        @ StrongRemoved (Suc (high s)) # hevs @ [BlockDeleted (Suc (high s))]))"
    unfolding d by (rule destroy_last_family [OF idx' at' hook])
  have "length ds = Suc (length front)"
    unfolding ds by simp
  then have rep: "replicate (length ds) (StrongRemoved (Suc (high s)))
             = replicate (length front) (StrongRemoved (Suc (high s)))
               @ [StrongRemoved (Suc (high s))]"
    by (simp add: replicate_append_same)
  have "destroy_each ds (family s v objs (length ds) evs)
        = Inr (family_gone s (objs'[idx := None])
                 (evs @ replicate (length ds) (StrongRemoved (Suc (high s)))
                      @ hevs @ [BlockDeleted (Suc (high s))]))"
    using run last one
    by (simp add: destroy_each_append [of front "[d]", folded ds] seq_def rep)
  then show ?thesis by blast
qed

lemma deletions_simps [simp]:
  "deletions [] = []"
  "deletions (xs @ ys) = deletions xs @ deletions ys"
  "deletions (replicate n (StrongAdded b)) = []"
  "deletions (replicate n (StrongRemoved b)) = []"
  "deletions (DefaultDelete p # xs) = DefaultDelete p # deletions xs"
  "deletions (DestroyInPlace b # xs) = DestroyInPlace b # deletions xs"
  "deletions (BlockDeleted b # xs) = deletions xs"
  "deletions (StrongAdded b # xs) = deletions xs"
  "deletions (StrongRemoved b # xs) = deletions xs"
  "deletions (WeakAdded b # xs) = deletions xs"
  "deletions (WeakRemoved b # xs) = deletions xs"
  by (simp_all add: deletions_def)

lemma trace_family [simp]:
  "trace (family s v objs m evs) = trace s @ evs"
  "trace (family_gone s objs evs) = trace s @ evs"
  by (simp_all add: family_def family_gone_def)

lemma block_at_family_gone:
  "block_at (family_gone s objs evs) (Suc (high s)) = None"
  by (simp add: block_at_def family_gone_def)

text \<open>
  The run from any constructor \<open>origin\<close> that leaves one new object, the only owner of a
  new block of variant \<open>v\<close>, whose hook performs the one pointee destruction \<open>del\<close>.
\<close>

lemma family_destroyed_once_at_last:
  assumes origin: "origin s
                   = Inr (family s v [Some \<lparr>block = Suc (high s), ptr = q\<rparr>] 1 [])"
    and hook: "snd (OnZeroStrong (Suc (high s)) \<lparr>strong = 0, weak = 0, variant = v\<rparr>) = [del]"
    and del: "deletions [del] = [del]"
    and srcs: "copy_sources_ok (length (shared_objs s)) srcs"
    and bound: "length srcs + 1 < 2 ^ 64"
    and dist: "distinct ds"
    and all: "set ds = {length (shared_objs s) .. length (shared_objs s) + length srcs}"
  shows "destroyed_once_at_last origin del s srcs ds"
proof -
  let ?k = "length (shared_objs s)"
  let ?n = "length srcs"
  let ?b = "Suc (high s)"
  let ?X = "Some \<lparr>block = ?b, ptr = q\<rparr>"
  define s1 where "s1 = family s v (replicate (Suc ?n) ?X) (Suc ?n) (replicate ?n (StrongAdded ?b))"
  have src: "\<forall>j < ?n. \<exists>idx. srcs ! j = ?k + idx \<and> idx < 1 + j"
  proof (intro allI impI)
    fix j assume "j < ?n"
    with srcs have "?k \<le> srcs ! j" "srcs ! j \<le> ?k + j"
      by (simp_all add: copy_sources_ok_def)
    then have "srcs ! j = ?k + (srcs ! j - ?k) \<and> srcs ! j - ?k < 1 + j" by simp
    then show "\<exists>idx. srcs ! j = ?k + idx \<and> idx < 1 + j" ..
  qed
  have built: "seq (origin s) (copy_each srcs) = Inr s1"
    using copy_each_family [OF src, of v q "[]"]
    by (simp add: origin seq_def s1_def)
  have tr1: "trace s1 = trace s @ replicate ?n (StrongAdded ?b)"
    by (simp add: s1_def)
  have len: "length ds = Suc ?n"
    using distinct_card [OF dist] all by simp
  have mem: "\<exists>idx. d = ?k + idx \<and> idx < length (replicate (Suc ?n) ?X)
               \<and> replicate (Suc ?n) ?X ! idx = ?X" if "d \<in> set ds" for d
  proof -
    from that all have "?k \<le> d" "d \<le> ?k + ?n" by simp_all
    then have "d = ?k + (d - ?k) \<and> d - ?k < length (replicate (Suc ?n) ?X)
               \<and> replicate (Suc ?n) ?X ! (d - ?k) = ?X"
      by (simp del: replicate.simps)
    then show ?thesis ..
  qed
  have before: "\<exists>s2. destroy_each (take m ds) s1 = Inr s2
                 \<and> events_since s1 s2 = replicate m (StrongRemoved ?b)
                 \<and> deletions (events_since s s2) = []
                 \<and> block_at s2 ?b \<noteq> None" if m: "m \<le> ?n" for m
  proof -
    have 1: "distinct (take m ds)" using dist by simp
    have 2: "\<forall>d \<in> set (take m ds). \<exists>idx. d = ?k + idx \<and> idx < length (replicate (Suc ?n) ?X)
               \<and> replicate (Suc ?n) ?X ! idx = ?X"
      using mem by (meson in_set_takeD)
    have 3: "length (take m ds) < Suc ?n" using m len by simp
    have lm: "length (take m ds) = m" using m len by simp
    have 4: "Suc ?n < 2 ^ 64" using bound by simp
    from destroy_each_family [OF 1 2 3 4, where evs = "replicate ?n (StrongAdded ?b)" and v = v]
    obtain objs' where
      run: "destroy_each (take m ds) s1
            = Inr (family s v objs' (Suc ?n - m)
                     (replicate ?n (StrongAdded ?b) @ replicate m (StrongRemoved ?b)))"
      unfolding s1_def lm by blast
    define s2 where "s2 = family s v objs' (Suc ?n - m)
                     (replicate ?n (StrongAdded ?b) @ replicate m (StrongRemoved ?b))"
    have "events_since s1 s2 = replicate m (StrongRemoved ?b)"
      by (rule events_since_append) (simp add: s2_def tr1)
    moreover have "events_since s s2
                   = replicate ?n (StrongAdded ?b) @ replicate m (StrongRemoved ?b)"
      by (rule events_since_append) (simp add: s2_def)
    moreover have "block_at s2 ?b \<noteq> None"
      by (simp add: s2_def block_at_family)
    ultimately show ?thesis
      using run unfolding s2_def [symmetric] by simp
  qed
  have after: "\<exists>s3. destroy_each ds s1 = Inr s3
                 \<and> events_since s1 s3
                     = replicate (?n + 1) (StrongRemoved ?b) @ [del, BlockDeleted ?b]
                 \<and> deletions (events_since s s3) = [del]
                 \<and> block_at s3 ?b = None"
  proof -
    have ne: "ds \<noteq> []" using len by auto
    have 2: "\<forall>d \<in> set ds. \<exists>idx. d = ?k + idx \<and> idx < length (replicate (Suc ?n) ?X)
               \<and> replicate (Suc ?n) ?X ! idx = ?X"
      using mem by blast
    have 4: "length ds < 2 ^ 64" using bound len by simp
    from destroy_all_family [OF dist ne 2 4 hook, where evs = "replicate ?n (StrongAdded ?b)"]
    obtain objs' where
      run: "destroy_each ds s1
            = Inr (family_gone s objs'
                     (replicate ?n (StrongAdded ?b) @ replicate (Suc ?n) (StrongRemoved ?b)
                        @ [del] @ [BlockDeleted ?b]))"
      unfolding s1_def len by blast
    define s3 where "s3 = family_gone s objs'
                     (replicate ?n (StrongAdded ?b) @ replicate (Suc ?n) (StrongRemoved ?b)
                        @ [del] @ [BlockDeleted ?b])"
    have "events_since s1 s3
          = replicate (Suc ?n) (StrongRemoved ?b) @ [del] @ [BlockDeleted ?b]"
      by (rule events_since_append) (simp add: s3_def tr1)
    moreover have "events_since s s3
          = replicate ?n (StrongAdded ?b) @ replicate (Suc ?n) (StrongRemoved ?b)
              @ [del] @ [BlockDeleted ?b]"
      by (rule events_since_append) (simp add: s3_def)
    moreover have "block_at s3 ?b = None"
      by (simp add: s3_def block_at_family_gone)
    moreover have "deletions [del, BlockDeleted ?b] = [del]"
      using del by (auto simp: deletions_def split: if_splits)
    ultimately show ?thesis
      using run unfolding s3_def [symmetric] by simp
  qed
  have "events_since s s1 = replicate ?n (StrongAdded ?b)"
    by (rule events_since_append) (rule tr1)
  then have "deletions (events_since s s1) = []" by simp
  with built before after show ?thesis
    unfolding destroyed_once_at_last_def by blast
qed

text \<open>
  Claim C2. From any state \<open>s\<close>, construct a \<open>SharedPtr\<close>, either from a raw address
  \<open>p\<close> (a referencing control block) or by \<open>MakeShared\<close> (an embedding control block),
  then \<open>n\<close> copies, each from the original or from an earlier copy, and then destroy all
  \<open>n + 1\<close> owners, in any order \<open>ds\<close>. Every step returns normally. After the
  constructions, and after the first \<open>m\<close> destructions for every \<open>m \<le> n\<close>, no pointee
  has been destroyed and the control block is still allocated. The last destruction
  destroys the pointee (\<open>std::default_delete\<close> on \<open>p\<close>, or the destructor call on the
  block's own storage) and then deletes the control block: over the whole run the pointee
  is destroyed exactly once, and that is the last but one event of the run. (The strong
  count is a 64-bit word, so the number of owners is taken below \<open>2 ^ 64\<close>.)
\<close>

theorem C2_destroyed_once_at_last:
  assumes "copy_sources_ok (length (shared_objs s)) srcs"
    and "length srcs + 1 < 2 ^ 64"
    and "distinct ds"
    and "set ds = {length (shared_objs s) .. length (shared_objs s) + length srcs}"
  shows "destroyed_once_at_last (SharedPtr_raw p) (DefaultDelete p) s srcs ds
       \<and> destroyed_once_at_last (MakeShared storage_of) (DestroyInPlace (Suc (high s))) s srcs ds"
proof
  have hk: "snd (OnZeroStrong (Suc (high s))
                   \<lparr>strong = 0, weak = 0, variant = Referencing p\<rparr>) = [DefaultDelete p]"
    by simp
  have dl: "deletions [DefaultDelete p] = [DefaultDelete p]"
    by simp
  show "destroyed_once_at_last (SharedPtr_raw p) (DefaultDelete p) s srcs ds"
    by (rule family_destroyed_once_at_last
          [where origin = "SharedPtr_raw p", OF raw_family hk dl assms])
  have hk': "snd (OnZeroStrong (Suc (high s)) \<lparr>strong = 0, weak = 0, variant = Embedding\<rparr>)
             = [DestroyInPlace (Suc (high s))]"
    by simp
  have dl': "deletions [DestroyInPlace (Suc (high s))] = [DestroyInPlace (Suc (high s))]"
    by simp
  show "destroyed_once_at_last (MakeShared storage_of) (DestroyInPlace (Suc (high s))) s srcs ds"
    by (rule family_destroyed_once_at_last
          [where origin = "MakeShared storage_of", OF make_family hk' dl' assms])
qed

theorem C2_destroyed_once_at_last_witness:
  "copy_sources_ok (length (shared_objs init)) [0, 1]
   \<and> distinct [1, 2, 0 :: nat]
   \<and> seq (seq (SharedPtr_raw 7 init) (copy_each [0, 1])) (observe trace)
      = Inr [StrongAdded 1, StrongAdded 1]
   \<and> seq (seq (seq (SharedPtr_raw 7 init) (copy_each [0, 1])) (destroy_each [1, 2]))
        (observe trace)
      = Inr [StrongAdded 1, StrongAdded 1, StrongRemoved 1, StrongRemoved 1]
   \<and> seq (seq (seq (SharedPtr_raw 7 init) (copy_each [0, 1])) (destroy_each [1, 2, 0]))
        (observe trace)
      = Inr [StrongAdded 1, StrongAdded 1, StrongRemoved 1, StrongRemoved 1, StrongRemoved 1,
             DefaultDelete 7, BlockDeleted 1]
   \<and> seq (seq (seq (MakeShared Suc init) (copy_each [0, 1])) (destroy_each [1, 2]))
        (observe trace)
      = Inr [StrongAdded 1, StrongAdded 1, StrongRemoved 1, StrongRemoved 1]
   \<and> seq (seq (seq (MakeShared Suc init) (copy_each [0, 1])) (destroy_each [1, 2, 0]))
        (observe trace)
      = Inr [StrongAdded 1, StrongAdded 1, StrongRemoved 1, StrongRemoved 1, StrongRemoved 1,
             DestroyInPlace 1, BlockDeleted 1]"
proof -
  have h1: "copy_sources_ok (length (shared_objs init)) [0, 1]"
    by (simp add: copy_sources_ok_def init_def less_Suc_eq)
  have h2: "length [0, 1 :: nat] + 1 < (2 :: nat) ^ 64" by simp
  have h3: "distinct [1, 2, 0 :: nat]" by simp
  have h4: "set [1, 2, 0 :: nat]
            = {length (shared_objs init) .. length (shared_objs init) + length [0, 1 :: nat]}"
    by (auto simp: init_def)
  from C2_destroyed_once_at_last [OF h1 h2 h3 h4, of 7 Suc] obtain s1 s3 t1 t3 where
    built: "seq (SharedPtr_raw 7 init) (copy_each [0, 1]) = Inr s1"
    and fin: "destroy_each [1, 2, 0] s1 = Inr s3"
    and mbuilt: "seq (MakeShared Suc init) (copy_each [0, 1]) = Inr t1"
    and mfin: "destroy_each [1, 2, 0] t1 = Inr t3"
    unfolding destroyed_once_at_last_def by blast
  have run: "seq (seq (SharedPtr_raw 7 init) (copy_each [0, 1])) (destroy_each [1, 2, 0]) = Inr s3"
    "seq (seq (MakeShared Suc init) (copy_each [0, 1])) (destroy_each [1, 2, 0]) = Inr t3"
    using built fin mbuilt mfin by (simp_all add: seq_def)
  show ?thesis
    using h1 h3 run by (auto simp: run_defs MakeShared_def SharedPtr_adopt_def)
qed

end
